theory Spec2Isabelle
  imports
    Complex_Main
    "HOL-Library.AList"
    "HOL-Library.Monad_Syntax"
    "HOL-Library.Sublist"
    "HOL-Library.List_Lexorder"
    "HOL-Library.Char_ord"
begin

chapter \<open>The metrics and diagnostics engine of go-code-health-analyzer\<close>

text \<open>
  A shallow embedding of the analyzer package: the cohesion analyzer (LCOM4) with its
  union-find structure, the cyclomatic complexity analyzer, the coupling and
  dependency-depth computations, method clustering, the cluster-count estimate of the
  field-usage analysis, and the God Object rule of the diagnostics engine.

  Conventions of the embedding.
  \<^item> A Go \<open>map[string]T\<close> is an association list with distinct keys; reading a missing
    key gives the zero value of \<open>T\<close>, as in Go. Go leaves the iteration order of a map
    unspecified; the model iterates in insertion order. The properties proved about
    iterating code (component counts, partitions, bounds) do not depend on that order.
  \<^item> Go \<open>int\<close> is \<open>int\<close>: the integers here are counts and line numbers far
    below \<open>2^63\<close>.
  \<^item> A \<open>float64\<close> is a real number, and every floating-point operation is the exact
    operation followed by a rounding function \<open>rnd\<close>, which is a parameter of the model.
    Theorems assume at most that \<open>rnd\<close> is monotone and leaves \<open>0\<close> and \<open>1\<close> unchanged,
    as rounding to nearest does; the field-usage analysis is evaluated at a concrete input
    in exact arithmetic, with the identity as \<open>rnd\<close>. NaN and infinities do not arise in
    the modelled code.
  \<^item> The syntax tree of \<open>go/ast\<close> is the datatype \<open>node\<close>; \<open>ast.Inspect\<close> with a
    callback that always returns \<open>true\<close> visits the nodes in the order \<open>walk\<close> lists
    them.
\<close>

section \<open>Syntax trees\<close>

datatype token = LAND | LOR | OtherOp

text \<open>
  The node kinds the analyzers distinguish. \<open>IfStmt\<close> carries Init, Cond, Body and Else;
  \<open>CaseClause\<close> its List and Body; \<open>CommClause\<close> its Comm and Body; \<open>SelectorExpr\<close> its X
  and the name of Sel; \<open>CallExpr\<close> its Fun and Args. The loop and switch statements carry
  their non-nil children in the order of \<open>ast.Walk\<close>. Every other kind of node
  (blocks, assignments, literals, function literals, ...) is an \<open>OtherNode\<close> with its
  children.
\<close>

datatype node =
    IfStmt "node option" node node "node option"
  | ForStmt "node list"
  | RangeStmt "node list"
  | SwitchStmt "node list"
  | TypeSwitchStmt "node list"
  | CaseClause "node list" "node list"
  | CommClause "node option" "node list"
  | BinaryExpr node token node
  | SelectorExpr node string
  | CallExpr node "node list"
  | StarExpr node
  | Ident string
  | OtherNode "node list"

text \<open>A block statement with the source lines of its braces (\<open>fset.Position(pos).Line\<close>).\<close>

record blockStmt =
  Lbrace :: int
  Rbrace :: int
  Stmts :: "node list"

record field =
  Names :: "string list"
  Type :: node

record funcDecl =
  Recv :: "field list option"
  Name :: string
  Body :: "blockStmt option"

text \<open>
  An import declaration: the alias, when there is one, and the path as the parser keeps
  it, in double quotes.
\<close>

record importSpec =
  ImportName :: "string option"
  ImportPath :: string

text \<open>
  A file: its imports and its function declarations, the latter in the order in which
  \<open>ast.Inspect\<close> meets them.
\<close>

record goFile =
  Imports :: "importSpec list"
  Decls :: "funcDecl list"

text \<open>The nodes of a tree in the order in which \<open>ast.Inspect\<close> calls its callback on them.\<close>

fun walk :: "node \<Rightarrow> node list" where
  "walk (IfStmt i c b e) =
     IfStmt i c b e # (case i of None \<Rightarrow> [] | Some n \<Rightarrow> walk n) @ walk c @ walk b
       @ (case e of None \<Rightarrow> [] | Some n \<Rightarrow> walk n)"
| "walk (ForStmt cs) = ForStmt cs # concat (map walk cs)"
| "walk (RangeStmt cs) = RangeStmt cs # concat (map walk cs)"
| "walk (SwitchStmt cs) = SwitchStmt cs # concat (map walk cs)"
| "walk (TypeSwitchStmt cs) = TypeSwitchStmt cs # concat (map walk cs)"
| "walk (CaseClause l b) = CaseClause l b # concat (map walk l) @ concat (map walk b)"
| "walk (CommClause cm b) =
     CommClause cm b # (case cm of None \<Rightarrow> [] | Some n \<Rightarrow> walk n) @ concat (map walk b)"
| "walk (BinaryExpr x opr y) = BinaryExpr x opr y # walk x @ walk y"
| "walk (SelectorExpr x sel) = SelectorExpr x sel # walk x @ [Ident sel]"
| "walk (CallExpr f args) = CallExpr f args # walk f @ concat (map walk args)"
| "walk (StarExpr x) = StarExpr x # walk x"
| "walk (Ident name) = [Ident name]"
| "walk (OtherNode cs) = OtherNode cs # concat (map walk cs)"

definition blockNode :: "blockStmt \<Rightarrow> node" where
  "blockNode b = OtherNode (Stmts b)"

section \<open>Cyclomatic complexity and function size (complexity.go, loc.go)\<close>

text \<open>The callback of \<open>calculateFunctionComplexity\<close>: one visited node, the counter updated.\<close>

fun countDecision :: "node \<Rightarrow> int \<Rightarrow> int" where
  "countDecision (IfStmt i c b e) complexity = complexity + 1"
| "countDecision (ForStmt cs) complexity = complexity + 1"
| "countDecision (RangeStmt cs) complexity = complexity + 1"
| "countDecision (SwitchStmt cs) complexity = complexity + 1"
| "countDecision (TypeSwitchStmt cs) complexity = complexity + 1"
| "countDecision (CaseClause l b) complexity =
     (if l \<noteq> [] \<and> length l > 0 then complexity + 1 else complexity)"
| "countDecision (CommClause cm b) complexity =
     (if cm \<noteq> None then complexity + 1 else complexity)"
| "countDecision (BinaryExpr x opr y) complexity =
     (if opr = LAND \<or> opr = LOR then complexity + 1 else complexity)"
| "countDecision n complexity = complexity"

definition calculateFunctionComplexity :: "funcDecl \<Rightarrow> int" where
  "calculateFunctionComplexity fd =
     (case Body fd of
        None \<Rightarrow> 1
      | Some body \<Rightarrow> fold countDecision (walk (blockNode body)) 1)"

definition CalculateFunctionLoC :: "funcDecl option \<Rightarrow> int" where
  "CalculateFunctionLoC fd =
     (case fd of
        None \<Rightarrow> 0
      | Some funcDecl \<Rightarrow>
          (case Body funcDecl of
             None \<Rightarrow> 0
           | Some body \<Rightarrow>
               (let lines = Rbrace body - Lbrace body
                in if lines < 0 then 0 else lines)))"

text \<open>
  The vocabulary of the specification: the kinds of decision point, and the number of
  nodes of a kind in a tree.
\<close>

fun isIf :: "node \<Rightarrow> bool" where
  "isIf (IfStmt i c b e) = True"
| "isIf n = False"

fun isLoop :: "node \<Rightarrow> bool" where
  "isLoop (ForStmt cs) = True"
| "isLoop (RangeStmt cs) = True"
| "isLoop n = False"

fun isSwitch :: "node \<Rightarrow> bool" where
  "isSwitch (SwitchStmt cs) = True"
| "isSwitch (TypeSwitchStmt cs) = True"
| "isSwitch n = False"

fun isValueCase :: "node \<Rightarrow> bool" where
  "isValueCase (CaseClause l b) = (l \<noteq> [])"
| "isValueCase n = False"

fun isCommCase :: "node \<Rightarrow> bool" where
  "isCommCase (CommClause cm b) = (cm \<noteq> None)"
| "isCommCase n = False"

fun isLogicalOp :: "node \<Rightarrow> bool" where
  "isLogicalOp (BinaryExpr x opr y) = (opr = LAND \<or> opr = LOR)"
| "isLogicalOp n = False"

definition occurrences :: "(node \<Rightarrow> bool) \<Rightarrow> node \<Rightarrow> int" where
  "occurrences P n = int (length (filter P (walk n)))"

definition points :: "node list \<Rightarrow> int" where
  "points ns = fold countDecision ns 0"

text \<open>
  A tree that brings no decision point with it: none of its nodes is a logical operator,
  an if, a loop, a switch, a case with a value or a select case with a communication.
\<close>

definition plainNode :: "node \<Rightarrow> bool" where
  "plainNode t =
     list_all (\<lambda>n. \<not> isLogicalOp n \<and> \<not> isIf n \<and> \<not> isLoop n \<and> \<not> isSwitch n
                  \<and> \<not> isValueCase n \<and> \<not> isCommCase n)
       (walk t)"

definition plainInit :: "node option \<Rightarrow> bool" where
  "plainInit init = (case init of None \<Rightarrow> True | Some n \<Rightarrow> plainNode n)"

text \<open>
  \<open>withPlain ys b\<close>: the statement list \<open>b\<close> holds the statements \<open>ys\<close>, in their order,
  and besides them only new statements without decision points.
\<close>

inductive withPlain :: "node list \<Rightarrow> node list \<Rightarrow> bool" where
  none: "withPlain [] []"
| old: "withPlain ys b \<Longrightarrow> withPlain (y # ys) (y # b)"
| new: "plainNode n \<Longrightarrow> withPlain ys b \<Longrightarrow> withPlain ys (n # b)"

text \<open>
  \<open>newIf init cond ys s\<close>: \<open>s\<close> is an if statement with the init statement \<open>init\<close> (or none)
  and the condition \<open>cond\<close>, without an else branch or with an else block. Its body and
  its else block hold the statements \<open>ys\<close>, the first of them in the body and the others
  in the else block, and besides them only new statements without decision points.
\<close>

inductive newIf :: "node option \<Rightarrow> node \<Rightarrow> node list \<Rightarrow> node \<Rightarrow> bool"
  for init :: "node option" and cond :: node where
  no_else: "withPlain ys b \<Longrightarrow> newIf init cond ys (IfStmt init cond (OtherNode b) None)"
| with_else:
    "withPlain ys b \<Longrightarrow> withPlain ws e \<Longrightarrow>
     newIf init cond (ys @ ws) (IfStmt init cond (OtherNode b) (Some (OtherNode e)))"

text \<open>
  \<open>addIf init cond t t'\<close>: the tree \<open>t'\<close> is \<open>t\<close> with one more if statement, of init
  statement \<open>init\<close> and condition \<open>cond\<close>. The statement is placed in a statement list
  anywhere in the tree, around a (possibly empty) run \<open>ys\<close> of consecutive statements, or
  it is placed as an else-if branch of an if statement: as a new last branch, before the
  else branch there is, or around the statements of the else block. Everything else is
  the same.
\<close>

inductive addIf :: "node option \<Rightarrow> node \<Rightarrow> node \<Rightarrow> node \<Rightarrow> bool"
  for init :: "node option" and cond :: node where
  in_block: "newIf init cond ys s \<Longrightarrow>
             addIf init cond (OtherNode (xs @ ys @ zs)) (OtherNode (xs @ s # zs))"
| in_case: "newIf init cond ys s \<Longrightarrow>
            addIf init cond (CaseClause l (xs @ ys @ zs)) (CaseClause l (xs @ s # zs))"
| in_comm: "newIf init cond ys s \<Longrightarrow>
            addIf init cond (CommClause cm (xs @ ys @ zs)) (CommClause cm (xs @ s # zs))"
| else_if_last:
    "newIf init cond [] s \<Longrightarrow> addIf init cond (IfStmt i c b None) (IfStmt i c b (Some s))"
| else_if_before:
    "withPlain [] body \<Longrightarrow>
     addIf init cond (IfStmt i c b (Some e))
                     (IfStmt i c b (Some (IfStmt init cond (OtherNode body) (Some e))))"
| else_if_around:
    "newIf init cond ys s \<Longrightarrow>
     addIf init cond (IfStmt i c b (Some (OtherNode ys))) (IfStmt i c b (Some s))"
| if_init:
    "addIf init cond n n' \<Longrightarrow> addIf init cond (IfStmt (Some n) c b e) (IfStmt (Some n') c b e)"
| if_cond: "addIf init cond n n' \<Longrightarrow> addIf init cond (IfStmt i n b e) (IfStmt i n' b e)"
| if_body: "addIf init cond n n' \<Longrightarrow> addIf init cond (IfStmt i c n e) (IfStmt i c n' e)"
| if_else:
    "addIf init cond n n' \<Longrightarrow> addIf init cond (IfStmt i c b (Some n)) (IfStmt i c b (Some n'))"
| for_child:
    "addIf init cond n n' \<Longrightarrow> addIf init cond (ForStmt (xs @ n # zs)) (ForStmt (xs @ n' # zs))"
| range_child:
    "addIf init cond n n' \<Longrightarrow>
     addIf init cond (RangeStmt (xs @ n # zs)) (RangeStmt (xs @ n' # zs))"
| switch_child:
    "addIf init cond n n' \<Longrightarrow>
     addIf init cond (SwitchStmt (xs @ n # zs)) (SwitchStmt (xs @ n' # zs))"
| typeswitch_child:
    "addIf init cond n n' \<Longrightarrow>
     addIf init cond (TypeSwitchStmt (xs @ n # zs)) (TypeSwitchStmt (xs @ n' # zs))"
| case_list:
    "addIf init cond n n' \<Longrightarrow>
     addIf init cond (CaseClause (xs @ n # zs) b) (CaseClause (xs @ n' # zs) b)"
| case_body:
    "addIf init cond n n' \<Longrightarrow>
     addIf init cond (CaseClause l (xs @ n # zs)) (CaseClause l (xs @ n' # zs))"
| comm_comm:
    "addIf init cond n n' \<Longrightarrow>
     addIf init cond (CommClause (Some n) b) (CommClause (Some n') b)"
| comm_body:
    "addIf init cond n n' \<Longrightarrow>
     addIf init cond (CommClause cm (xs @ n # zs)) (CommClause cm (xs @ n' # zs))"
| binary_x:
    "addIf init cond n n' \<Longrightarrow> addIf init cond (BinaryExpr n opr y) (BinaryExpr n' opr y)"
| binary_y:
    "addIf init cond n n' \<Longrightarrow> addIf init cond (BinaryExpr x opr n) (BinaryExpr x opr n')"
| selector_x:
    "addIf init cond n n' \<Longrightarrow> addIf init cond (SelectorExpr n sel) (SelectorExpr n' sel)"
| call_fun: "addIf init cond n n' \<Longrightarrow> addIf init cond (CallExpr n args) (CallExpr n' args)"
| call_arg:
    "addIf init cond n n' \<Longrightarrow>
     addIf init cond (CallExpr f (xs @ n # zs)) (CallExpr f (xs @ n' # zs))"
| star_x: "addIf init cond n n' \<Longrightarrow> addIf init cond (StarExpr n) (StarExpr n')"
| other_child:
    "addIf init cond n n' \<Longrightarrow>
     addIf init cond (OtherNode (xs @ n # zs)) (OtherNode (xs @ n' # zs))"
section \<open>Union-find (lcom4.go)\<close>

record unionFind =
  parent :: "(string \<times> string) list"
  rank :: "(string \<times> int) list"

text \<open>Reading \<open>uf.parent[node]\<close> and \<open>uf.rank[node]\<close>: a missing key reads as \<open>""\<close> and \<open>0\<close>.\<close>

definition parentOf :: "unionFind \<Rightarrow> string \<Rightarrow> string" where
  "parentOf uf node = (case map_of (parent uf) node of None \<Rightarrow> [] | Some p \<Rightarrow> p)"

definition rankOf :: "unionFind \<Rightarrow> string \<Rightarrow> int" where
  "rankOf uf node = (case map_of (rank uf) node of None \<Rightarrow> 0 | Some r \<Rightarrow> r)"

definition newUnionFind :: unionFind where
  "newUnionFind = \<lparr>parent = [], rank = []\<rparr>"

text \<open>\<open>add\<close>, \<open>find\<close> and \<open>union\<close> of the source; the state is passed and returned.\<close>

definition uf_add :: "unionFind \<Rightarrow> string \<Rightarrow> unionFind" where
  "uf_add uf node =
     (if map_of (parent uf) node = None
      then uf\<lparr>parent := AList.update node node (parent uf),
              rank := AList.update node 0 (rank uf)\<rparr>
      else uf)"

text \<open>
  \<open>find\<close> is recursive on the parent map, which it updates on the way back (path
  compression); whether it returns depends on the map, so it is a partial function and
  \<open>None\<close> stands for a recursion that never returns.
\<close>

partial_function (option) uf_find :: "unionFind \<Rightarrow> string \<Rightarrow> (unionFind \<times> string) option" where
  "uf_find uf node =
     (if parentOf uf node \<noteq> node then
        do {
          (uf1, r) \<leftarrow> uf_find uf (parentOf uf node);
          let uf2 = uf1\<lparr>parent := AList.update node r (parent uf1)\<rparr>;
          Some (uf2, parentOf uf2 node)
        }
      else Some (uf, parentOf uf node))"

declare uf_find.simps [code]

definition uf_union :: "unionFind \<Rightarrow> string \<Rightarrow> string \<Rightarrow> unionFind option" where
  "uf_union uf node1 node2 =
     do {
       (uf1, root1) \<leftarrow> uf_find uf node1;
       (uf2, root2) \<leftarrow> uf_find uf1 node2;
       if root1 = root2 then Some uf2
       else if rankOf uf2 root1 < rankOf uf2 root2 then
         Some (uf2\<lparr>parent := AList.update root1 root2 (parent uf2)\<rparr>)
       else if rankOf uf2 root1 > rankOf uf2 root2 then
         Some (uf2\<lparr>parent := AList.update root2 root1 (parent uf2)\<rparr>)
       else
         Some (uf2\<lparr>parent := AList.update root2 root1 (parent uf2),
                   rank := AList.update root1 (rankOf uf2 root1 + 1) (rank uf2)\<rparr>)
     }"

text \<open>
  \<open>getComponents\<close>: the loop over the keys of \<open>uf.parent\<close> fills \<open>componentMap\<close>
  (\<open>append\<close> to a missing entry starts from the empty slice); the components are the
  values of that map.
\<close>

definition componentOf :: "(string \<times> string list) list \<Rightarrow> string \<Rightarrow> string list" where
  "componentOf componentMap rootNode =
     (case map_of componentMap rootNode of None \<Rightarrow> [] | Some c \<Rightarrow> c)"

fun collectComponents ::
  "unionFind \<Rightarrow> (string \<times> string list) list \<Rightarrow> string list
   \<Rightarrow> (unionFind \<times> (string \<times> string list) list) option" where
  "collectComponents uf componentMap [] = Some (uf, componentMap)"
| "collectComponents uf componentMap (node # nodes) =
     do {
       (uf1, rootNode) \<leftarrow> uf_find uf node;
       collectComponents uf1
         (AList.update rootNode (componentOf componentMap rootNode @ [node]) componentMap) nodes
     }"

definition getComponents :: "unionFind \<Rightarrow> (unionFind \<times> string list list) option" where
  "getComponents uf =
     do {
       (uf1, componentMap) \<leftarrow> collectComponents uf [] (map fst (parent uf));
       Some (uf1, map snd componentMap)
     }"

text \<open>A sequence of calls of \<open>add\<close> and \<open>union\<close> on one structure.\<close>

datatype ufOp = Add string | Union string string

fun applyOps :: "unionFind \<Rightarrow> ufOp list \<Rightarrow> unionFind option" where
  "applyOps uf [] = Some uf"
| "applyOps uf (Add node # ops) = applyOps (uf_add uf node) ops"
| "applyOps uf (Union node1 node2 # ops) =
     do { uf1 \<leftarrow> uf_union uf node1 node2; applyOps uf1 ops }"

text \<open>The nodes that the calls of \<open>add\<close> in a sequence have added.\<close>

fun addedNodes :: "ufOp list \<Rightarrow> string set" where
  "addedNodes [] = {}"
| "addedNodes (Add node # ops) = insert node (addedNodes ops)"
| "addedNodes (Union node1 node2 # ops) = addedNodes ops"

text \<open>Every \<open>union\<close> of the sequence is called on nodes added before it.\<close>

fun unionsOnAdded :: "string set \<Rightarrow> ufOp list \<Rightarrow> bool" where
  "unionsOnAdded A [] = True"
| "unionsOnAdded A (Add node # ops) = unionsOnAdded (insert node A) ops"
| "unionsOnAdded A (Union node1 node2 # ops) =
     (node1 \<in> A \<and> node2 \<in> A \<and> unionsOnAdded A ops)"

section \<open>Cohesion analyzer (lcom4.go)\<close>

record StructResult =
  StructName :: string
  FilePath :: string
  LCOM4Score :: int
  ComponentDetails :: "string list list"

text \<open>\<open>usedFields\<close> is a \<open>map[string]bool\<close> that only ever stores \<open>true\<close>: its keys.\<close>

record methodInfo =
  name :: string
  usedFields :: "string list"

text \<open>A struct type is its field list (\<open>structType.Fields\<close>, which may be nil).\<close>

definition extractFields :: "field list option \<Rightarrow> string list" where
  "extractFields structFields =
     (case structFields of None \<Rightarrow> [] | Some fs \<Rightarrow> concat (map Names fs))"

text \<open>The callback of \<open>findUsedFields\<close>; \<open>fieldMap\<close> is given by the list of its keys.\<close>

fun markUsedField :: "string \<Rightarrow> string list \<Rightarrow> node \<Rightarrow> string list \<Rightarrow> string list" where
  "markUsedField recvName fieldMap (SelectorExpr (Ident x) sel) used =
     (if x = recvName \<and> sel \<in> set fieldMap
      then (if sel \<in> set used then used else used @ [sel])
      else used)"
| "markUsedField recvName fieldMap n used = used"

definition findUsedFields :: "blockStmt option \<Rightarrow> string \<Rightarrow> string list \<Rightarrow> string list" where
  "findUsedFields body recvName fieldMap =
     (case body of
        None \<Rightarrow> []
      | Some b \<Rightarrow> fold (markUsedField recvName fieldMap) (walk (blockNode b)) [])"

fun recvTypeName :: "node \<Rightarrow> string" where
  "recvTypeName (Ident n) = n"
| "recvTypeName (StarExpr (Ident n)) = n"
| "recvTypeName t = []"

definition recvVarName :: "field \<Rightarrow> string" where
  "recvVarName recv = (case Names recv of [] \<Rightarrow> [] | n # ns \<Rightarrow> n)"

text \<open>\<open>extractMethods\<close>: the methods of the struct that the file declares.\<close>

definition methodsOfDecl :: "string \<Rightarrow> string list \<Rightarrow> funcDecl \<Rightarrow> methodInfo list" where
  "methodsOfDecl structName fieldMap fd =
     (case Recv fd of
        None \<Rightarrow> []
      | Some recvs \<Rightarrow>
          concat (map (\<lambda>recv.
            if recvTypeName (Type recv) = structName
            then [\<lparr>name = Name fd,
                   usedFields = findUsedFields (Body fd) (recvVarName recv) fieldMap\<rparr>]
            else []) recvs))"

definition extractMethods :: "string \<Rightarrow> goFile \<Rightarrow> string list \<Rightarrow> methodInfo list" where
  "extractMethods structName file structFields =
     concat (map (methodsOfDecl structName structFields) (Decls file))"

fun connectFields :: "unionFind \<Rightarrow> string \<Rightarrow> string list \<Rightarrow> unionFind option" where
  "connectFields uf m [] = Some uf"
| "connectFields uf m (f # fs) = do { uf1 \<leftarrow> uf_union uf m f; connectFields uf1 m fs }"

fun connectMethods :: "unionFind \<Rightarrow> methodInfo list \<Rightarrow> unionFind option" where
  "connectMethods uf [] = Some uf"
| "connectMethods uf (m # ms) =
     do { uf1 \<leftarrow> connectFields uf (name m) (usedFields m); connectMethods uf1 ms }"

text \<open>
  \<open>calculateStructLCOM4\<close>; the file set of the source is a parameter it never reads. The
  result is \<open>None\<close> only if a call of \<open>find\<close> does not return.
\<close>

definition calculateStructLCOM4 ::
  "string \<Rightarrow> field list option \<Rightarrow> goFile \<Rightarrow> string \<Rightarrow> StructResult option" where
  "calculateStructLCOM4 structName structType file fileName =
     (let fields = extractFields structType;
          methods = extractMethods structName file fields
      in if length methods = 0 then
           Some \<lparr>StructName = structName, FilePath = fileName,
                 LCOM4Score = 0, ComponentDetails = []\<rparr>
         else
           do {
             let uf0 = newUnionFind;
             let uf1 = fold (\<lambda>m uf. uf_add uf (name m)) methods uf0;
             let uf2 = fold (\<lambda>f uf. uf_add uf f) fields uf1;
             uf3 \<leftarrow> connectMethods uf2 methods;
             (uf4, components) \<leftarrow> getComponents uf3;
             Some \<lparr>StructName = structName, FilePath = fileName,
                   LCOM4Score = int (length components), ComponentDetails = components\<rparr>
           })"

text \<open>
  The graph of the specification: its nodes are the names of the methods and the fields
  of the struct, and a method is joined to each field that its body selects on the
  receiver. \<open>componentCount\<close> is the number of connected components: the number of
  classes of the nodes under the equivalence generated by the edges.
\<close>

definition usageNodes :: "string \<Rightarrow> field list option \<Rightarrow> goFile \<Rightarrow> string set" where
  "usageNodes structName structType file =
     name ` set (extractMethods structName file (extractFields structType))
       \<union> set (extractFields structType)"

definition usageEdges ::
  "string \<Rightarrow> field list option \<Rightarrow> goFile \<Rightarrow> (string \<times> string) set" where
  "usageEdges structName structType file =
     {(name m, f) | m f.
        m \<in> set (extractMethods structName file (extractFields structType))
        \<and> f \<in> set (usedFields m)}"

definition connected :: "'a set \<Rightarrow> ('a \<times> 'a) set \<Rightarrow> ('a \<times> 'a) set" where
  "connected V E = {(x, y). x \<in> V \<and> y \<in> V \<and> (x, y) \<in> (E \<union> E\<inverse>)\<^sup>*}"

definition componentCount :: "'a set \<Rightarrow> ('a \<times> 'a) set \<Rightarrow> nat" where
  "componentCount V E = card (V // connected V E)"

text \<open>
  The graph of the specification read by the letter: one node for each method and one for
  each field of the struct, whatever their names (\<open>MethodNode i\<close> is the \<open>i\<close>-th method,
  \<open>FieldNode j\<close> the \<open>j\<close>-th field), a method joined to each field that it uses.
\<close>

datatype member = MethodNode nat | FieldNode nat

definition memberNodes :: "methodInfo list \<Rightarrow> string list \<Rightarrow> member set" where
  "memberNodes methods structFields =
     MethodNode ` {..<length methods} \<union> FieldNode ` {..<length structFields}"

definition memberEdges :: "methodInfo list \<Rightarrow> string list \<Rightarrow> (member \<times> member) set" where
  "memberEdges methods structFields =
     {(MethodNode i, FieldNode j) | i j.
        i < length methods \<and> j < length structFields
        \<and> structFields ! j \<in> set (usedFields (methods ! i))}"
section \<open>The forest of a union-find structure\<close>

text \<open>
  \<open>rootOf p x r\<close>: following the parent function \<open>p\<close> from \<open>x\<close> ends in \<open>r\<close>, a node that
  is its own parent.
\<close>

inductive rootOf :: "(string \<Rightarrow> string) \<Rightarrow> string \<Rightarrow> string \<Rightarrow> bool" for p where
  root: "p x = x \<Longrightarrow> rootOf p x x"
| step: "p x \<noteq> x \<Longrightarrow> rootOf p (p x) r \<Longrightarrow> rootOf p x r"

definition ufKeys :: "unionFind \<Rightarrow> string set" where
  "ufKeys uf = fst ` set (parent uf)"

text \<open>
  The invariant of the structure: the keys of the parent map are distinct, the parent of
  a key is a key, and the rank grows strictly from a node to its parent.
\<close>

definition ufInv :: "unionFind \<Rightarrow> bool" where
  "ufInv uf =
     (distinct (map fst (parent uf))
      \<and> (\<forall>x \<in> ufKeys uf. parentOf uf x \<in> ufKeys uf)
      \<and> (\<forall>x \<in> ufKeys uf. parentOf uf x \<noteq> x \<longrightarrow> rankOf uf x < rankOf uf (parentOf uf x)))"

text \<open>Two keys are in the same set of the structure when they have the same root.\<close>

definition ufRel :: "unionFind \<Rightarrow> (string \<times> string) set" where
  "ufRel uf =
     {(x, y). x \<in> ufKeys uf \<and> y \<in> ufKeys uf
        \<and> (\<exists>r. rootOf (parentOf uf) x r \<and> rootOf (parentOf uf) y r)}"

text \<open>The pairs of nodes that the calls of \<open>union\<close> in a sequence join.\<close>

fun unionEdges :: "ufOp list \<Rightarrow> (string \<times> string) set" where
  "unionEdges [] = {}"
| "unionEdges (Add node # ops) = unionEdges ops"
| "unionEdges (Union node1 node2 # ops) = insert (node1, node2) (unionEdges ops)"

text \<open>
  The state of \<open>componentMap\<close> in the loop of \<open>getComponents\<close>, after the nodes \<open>D\<close>: a
  root has an entry when a node of \<open>D\<close> has that root, and the entry lists exactly those
  nodes, each once.
\<close>

definition groupedByRoot ::
  "(string \<Rightarrow> string) \<Rightarrow> (string \<times> string list) list \<Rightarrow> string set \<Rightarrow> bool" where
  "groupedByRoot p componentMap D =
     (distinct (map fst componentMap)
      \<and> (\<forall>r. case map_of componentMap r of
                None \<Rightarrow> \<not> (\<exists>n \<in> D. rootOf p n r)
              | Some c \<Rightarrow> c \<noteq> [] \<and> distinct c \<and> set c = {n \<in> D. rootOf p n r}))"

text \<open>
  The calls of \<open>add\<close> and \<open>union\<close> that \<open>calculateStructLCOM4\<close> makes for the methods
  \<open>ms\<close> and the fields \<open>fs\<close> of a struct, in order.
\<close>

definition methodOps :: "methodInfo list \<Rightarrow> ufOp list" where
  "methodOps ms = concat (map (\<lambda>m. map (Union (methodInfo.name m)) (usedFields m)) ms)"

definition structOps :: "methodInfo list \<Rightarrow> string list \<Rightarrow> ufOp list" where
  "structOps ms fs = map (\<lambda>m. Add (methodInfo.name m)) ms @ map Add fs @ methodOps ms"

section \<open>Result records (types.go)\<close>

record FunctionResult =
  FuncName :: string
  FilePath :: string
  Complexity :: int
  LoC :: int
  Dependencies :: "string list"
  InternalDeps :: "string list"
  ExternalDeps :: "string list"
  DependencyCount :: int
  Afferent :: int
  Efferent :: int
  Instability :: real

record PackageResult =
  Name :: string
  Path :: string
  Afferent :: int
  Efferent :: int
  Instability :: real
  Structs :: "StructResult list"
  Functions :: "FunctionResult list"
  TotalLoC :: int
  AvgFuncLoC :: real
  FuncCount :: int
  FileCount :: int
  DependencyDepth :: int

text \<open>The values that the rules store in an evidence map (\<open>map[string]interface{}\<close>).\<close>

datatype evidenceValue = IntValue int | StringValue string

record DiagnosticResult =
  Type :: string
  TargetName :: string
  Message :: string
  Severity :: string
  Evidence :: "(string \<times> evidenceValue) list"
  RelatedPath :: string

section \<open>The God Object rule (diagnostics.go)\<close>

text \<open>\<open>%d\<close> of \<open>fmt.Sprintf\<close>: an integer in decimal.\<close>

fun decimal :: "nat \<Rightarrow> string" where
  "decimal n =
     (if n < 10 then [''0123456789'' ! n]
      else decimal (n div 10) @ [''0123456789'' ! (n mod 10)])"

definition formatInt :: "int \<Rightarrow> string" where
  "formatInt i = (if i < 0 then ''-'' @ decimal (nat (- i)) else decimal (nat i))"

definition godObjectFinding :: "PackageResult \<Rightarrow> StructResult \<Rightarrow> DiagnosticResult" where
  "godObjectFinding pkg s =
     \<lparr>Type = ''God Object'',
      TargetName = PackageResult.Name pkg @ ''.'' @ StructName s,
      Message = ''Struct '' @ [CHR 0x27] @ StructName s @ [CHR 0x27]
        @ '' has excessive responsibilities (LCOM4='' @ formatInt (LCOM4Score s)
        @ '') and is heavily depended upon (Ca='' @ formatInt (PackageResult.Afferent pkg)
        @ ''). Consider splitting into smaller, focused structs.'',
      Severity = ''Critical'',
      Evidence =
        [(''lcom4_score'', IntValue (LCOM4Score s)),
         (''afferent'', IntValue (PackageResult.Afferent pkg)),
         (''package'', StringValue (PackageResult.Name pkg)),
         (''file_path'', StringValue (StructResult.FilePath s))],
      RelatedPath = ''#struct-'' @ Path pkg @ ''-'' @ StructName s\<rparr>"

text \<open>The inner loop over the structs of a package and the outer loop over the packages.\<close>

fun godObjectsOfStructs ::
  "PackageResult \<Rightarrow> StructResult list \<Rightarrow> DiagnosticResult list \<Rightarrow> DiagnosticResult list" where
  "godObjectsOfStructs pkg [] results = results"
| "godObjectsOfStructs pkg (s # ss) results =
     godObjectsOfStructs pkg ss
       (if LCOM4Score s \<ge> 5 then results @ [godObjectFinding pkg s] else results)"

fun godObjectsOfPackages ::
  "PackageResult list \<Rightarrow> DiagnosticResult list \<Rightarrow> DiagnosticResult list" where
  "godObjectsOfPackages [] results = results"
| "godObjectsOfPackages (pkg # pkgs) results =
     (if PackageResult.Afferent pkg < 10 then godObjectsOfPackages pkgs results
      else godObjectsOfPackages pkgs (godObjectsOfStructs pkg (Structs pkg) results))"

definition detectGodObjects :: "PackageResult list \<Rightarrow> DiagnosticResult list" where
  "detectGodObjects packages = godObjectsOfPackages packages []"

text \<open>
  The structs of an analysis run, each with its package, in report order, and the
  condition of the rule.
\<close>

definition structsOfRun :: "PackageResult list \<Rightarrow> (PackageResult \<times> StructResult) list" where
  "structsOfRun packages = concat (map (\<lambda>pkg. map (Pair pkg) (Structs pkg)) packages)"

definition isGodObject :: "PackageResult \<times> StructResult \<Rightarrow> bool" where
  "isGodObject ps = (LCOM4Score (snd ps) \<ge> 5 \<and> PackageResult.Afferent (fst ps) \<ge> 10)"

section \<open>Floating point\<close>

text \<open>
  \<open>float64(i)\<close>, and the quotient and the sum of two \<open>float64\<close> values, each rounded by
  \<open>rnd\<close>.
\<close>

definition float64 :: "(real \<Rightarrow> real) \<Rightarrow> int \<Rightarrow> real" where
  "float64 rnd i = rnd (of_int i)"

definition fdiv :: "(real \<Rightarrow> real) \<Rightarrow> real \<Rightarrow> real \<Rightarrow> real" where
  "fdiv rnd x y = rnd (x / y)"

definition fadd :: "(real \<Rightarrow> real) \<Rightarrow> real \<Rightarrow> real \<Rightarrow> real" where
  "fadd rnd x y = rnd (x + y)"

text \<open>What the theorems ask of the rounding function.\<close>

definition rounding :: "(real \<Rightarrow> real) \<Rightarrow> bool" where
  "rounding rnd = (mono rnd \<and> rnd 0 = 0 \<and> rnd 1 = 1)"

section \<open>Package coupling (coupling.go)\<close>

record PackageDependency =
  PkgPath :: string
  Imports :: "string list"
  ImportedBy :: "string list"

record CouplingMetrics =
  Afferent :: int
  Efferent :: int
  Instability :: real

text \<open>The counting loops of \<open>CalculateCoupling\<close>; \<open>strings.HasPrefix(s, p)\<close> is \<open>prefix p s\<close>.\<close>

definition countInternal :: "string \<Rightarrow> string list \<Rightarrow> int" where
  "countInternal projectPrefix paths =
     fold (\<lambda>p c. if prefix projectPrefix p then c + 1 else c) paths 0"

definition couplingOf :: "(real \<Rightarrow> real) \<Rightarrow> string \<Rightarrow> PackageDependency \<Rightarrow> CouplingMetrics" where
  "couplingOf rnd projectPrefix dep =
     (let ca = countInternal projectPrefix (ImportedBy dep);
          ce = countInternal projectPrefix (PackageDependency.Imports dep);
          instability =
            (if ca + ce > 0 then fdiv rnd (float64 rnd ce) (float64 rnd (ca + ce)) else 0)
      in \<lparr>Afferent = ca, Efferent = ce, Instability = instability\<rparr>)"

definition CalculateCoupling ::
  "(real \<Rightarrow> real) \<Rightarrow> (string \<times> PackageDependency) list \<Rightarrow> string
   \<Rightarrow> (string \<times> CouplingMetrics) list" where
  "CalculateCoupling rnd pkgDeps projectPrefix =
     fold (\<lambda>(pkgPath, dep) metrics.
             AList.update pkgPath (couplingOf rnd projectPrefix dep) metrics)
          pkgDeps []"

section \<open>Function coupling (complexity.go)\<close>

text \<open>\<open>strings.Trim(s, "\"")\<close> and the last element of \<open>strings.Split(s, "/")\<close>.\<close>

definition trimQuotes :: "string \<Rightarrow> string" where
  "trimQuotes s =
     rev (dropWhile (\<lambda>c. c = CHR 0x22) (rev (dropWhile (\<lambda>c. c = CHR 0x22) s)))"

definition lastPathElement :: "string \<Rightarrow> string" where
  "lastPathElement s = rev (takeWhile (\<lambda>c. c \<noteq> CHR ''/'') (rev s))"

definition buildFileImportMap :: "goFile \<Rightarrow> (string \<times> string) list" where
  "buildFileImportMap file =
     fold (\<lambda>imp importMap.
             (let importPath = trimQuotes (ImportPath imp);
                  pkgName = (case ImportName imp of
                               Some alias \<Rightarrow> alias
                             | None \<Rightarrow> lastPathElement importPath)
              in AList.update pkgName importPath importMap))
          (goFile.Imports file) []"

text \<open>The callback of \<open>extractFunctionDependencies\<close>; \<open>usedPackages\<close> is given by its keys.\<close>

fun markUsedPackage :: "(string \<times> string) list \<Rightarrow> node \<Rightarrow> string list \<Rightarrow> string list" where
  "markUsedPackage fileImports (SelectorExpr (Ident x) sel) usedPackages =
     (case map_of fileImports x of
        Some importPath \<Rightarrow>
          (if importPath \<in> set usedPackages then usedPackages
           else usedPackages @ [importPath])
      | None \<Rightarrow> usedPackages)"
| "markUsedPackage fileImports n usedPackages = usedPackages"

definition extractFunctionDependencies ::
  "funcDecl \<Rightarrow> (string \<times> string) list \<Rightarrow> string \<Rightarrow> string list" where
  "extractFunctionDependencies fd fileImports projectPrefix =
     (case Body fd of
        None \<Rightarrow> []
      | Some b \<Rightarrow> fold (markUsedPackage fileImports) (walk (blockNode b)) [])"

definition CategorizeDependencies :: "string list \<Rightarrow> string \<Rightarrow> string list \<times> string list" where
  "CategorizeDependencies deps projectPrefix =
     (filter (\<lambda>dep. prefix projectPrefix dep) deps,
      filter (\<lambda>dep. \<not> prefix projectPrefix dep) deps)"

text \<open>The name of a function, with the receiver type in front for a method.\<close>

definition qualifiedName :: "funcDecl \<Rightarrow> string" where
  "qualifiedName fd =
     (case Recv fd of
        Some (recv # recvs) \<Rightarrow>
          (if recvTypeName (field.Type recv) \<noteq> [] then recvTypeName (field.Type recv) @ ''.'' @ funcDecl.Name fd
           else funcDecl.Name fd)
      | _ \<Rightarrow> funcDecl.Name fd)"

definition functionResultOf ::
  "string \<Rightarrow> (string \<times> string) list \<Rightarrow> string \<Rightarrow> funcDecl \<Rightarrow> FunctionResult" where
  "functionResultOf projectPrefix fileImports fileName fd =
     (let deps = extractFunctionDependencies fd fileImports projectPrefix;
          (internalDeps, externalDeps) = CategorizeDependencies deps projectPrefix
      in \<lparr>FuncName = qualifiedName fd,
          FilePath = fileName,
          Complexity = calculateFunctionComplexity fd,
          LoC = CalculateFunctionLoC (Some fd),
          Dependencies = deps,
          InternalDeps = internalDeps,
          ExternalDeps = externalDeps,
          DependencyCount = int (length deps),
          Afferent = 0,
          Efferent = int (length deps),
          Instability = 0\<rparr>)"

text \<open>
  \<open>calculateAfferentCoupling\<close>. \<open>funcMap[name]\<close> points at the last result of that name;
  \<open>bumpAfferent\<close> increments its \<open>Afferent\<close>.
\<close>

fun bumpAfferent :: "string \<Rightarrow> FunctionResult list \<Rightarrow> FunctionResult list" where
  "bumpAfferent calledName [] = []"
| "bumpAfferent calledName (f # fs) =
     (if FuncName f = calledName \<and> calledName \<notin> FuncName ` set fs
      then f\<lparr>FunctionResult.Afferent := FunctionResult.Afferent f + 1\<rparr> # fs
      else f # bumpAfferent calledName fs)"

fun calledNameOf :: "string list \<Rightarrow> node \<Rightarrow> string" where
  "calledNameOf localFunctions (Ident n) = n"
| "calledNameOf localFunctions (SelectorExpr (Ident x) sel) =
     (if x @ ''.'' @ sel \<in> set localFunctions then x @ ''.'' @ sel else [])"
| "calledNameOf localFunctions n = []"

fun countCall :: "string list \<Rightarrow> node \<Rightarrow> FunctionResult list \<Rightarrow> FunctionResult list" where
  "countCall localFunctions (CallExpr f args) functions =
     (let calledName = calledNameOf localFunctions f
      in if calledName \<noteq> [] \<and> calledName \<in> set localFunctions
         then bumpAfferent calledName functions
         else functions)"
| "countCall localFunctions n functions = functions"

definition countCallsOfDecl ::
  "string list \<Rightarrow> funcDecl \<Rightarrow> FunctionResult list \<Rightarrow> FunctionResult list" where
  "countCallsOfDecl localFunctions fd functions =
     (if qualifiedName fd \<notin> set localFunctions then functions
      else (case Body fd of
              None \<Rightarrow> functions
            | Some b \<Rightarrow> fold (countCall localFunctions) (walk (blockNode b)) functions))"

definition calculateAfferentCoupling ::
  "FunctionResult list \<Rightarrow> (string \<times> goFile) list \<Rightarrow> FunctionResult list" where
  "calculateAfferentCoupling functions files =
     (let localFunctions = map FuncName functions
      in fold (\<lambda>(fileName, file) fs. fold (countCallsOfDecl localFunctions) (Decls file) fs)
           files functions)"

definition setInstability :: "(real \<Rightarrow> real) \<Rightarrow> FunctionResult \<Rightarrow> FunctionResult" where
  "setInstability rnd r =
     (let total = FunctionResult.Afferent r + FunctionResult.Efferent r
      in if total > 0
         then r\<lparr>FunctionResult.Instability :=
                  fdiv rnd (float64 rnd (FunctionResult.Efferent r)) (float64 rnd total)\<rparr>
         else r)"

text \<open>\<open>CalculateComplexity\<close>: a package is the association list of its files.\<close>

definition CalculateComplexity ::
  "(real \<Rightarrow> real) \<Rightarrow> (string \<times> goFile) list \<Rightarrow> string \<Rightarrow> FunctionResult list" where
  "CalculateComplexity rnd files projectPrefix =
     (let results =
            concat (map (\<lambda>(fileName, file).
              map (functionResultOf projectPrefix (buildFileImportMap file) fileName)
                  (Decls file)) files);
          results = calculateAfferentCoupling results files
      in map (setInstability rnd) results)"

section \<open>Dependency depth (coupling.go)\<close>

text \<open>The three maps that the closure \<open>dfs\<close> of \<open>CalculateDependencyDepth\<close> updates.\<close>

record depthState =
  depths :: "(string \<times> int) list"
  visited :: "(string \<times> bool) list"
  inProgress :: "(string \<times> bool) list"

definition flagOf :: "(string \<times> bool) list \<Rightarrow> string \<Rightarrow> bool" where
  "flagOf m k = (case map_of m k of None \<Rightarrow> False | Some b \<Rightarrow> b)"

definition depthOf :: "(string \<times> int) list \<Rightarrow> string \<Rightarrow> int" where
  "depthOf m k = (case map_of m k of None \<Rightarrow> 0 | Some d \<Rightarrow> d)"

definition fullPathOf :: "string \<Rightarrow> string \<Rightarrow> string" where
  "fullPathOf projectPrefix pkgPath =
     (if pkgPath \<noteq> [] then projectPrefix @ ''/'' @ pkgPath else projectPrefix)"

definition buildFullToRelPath ::
  "(string \<times> PackageDependency) list \<Rightarrow> string \<Rightarrow> (string \<times> string) list" where
  "buildFullToRelPath pkgDeps projectPrefix =
     fold (\<lambda>(pkgPath, dep) m. AList.update (fullPathOf projectPrefix pkgPath) pkgPath m)
          pkgDeps []"

text \<open>
  \<open>dfs\<close> and its loop over the imports of a package. The recursion of the source is
  bounded by the number of packages, since a package in progress is not entered again;
  the model carries that bound as fuel, and \<open>None\<close> is a recursion that ran out of it.
\<close>

fun dfs ::
    "(string \<times> PackageDependency) list \<Rightarrow> string \<Rightarrow> (string \<times> string) list \<Rightarrow> nat
     \<Rightarrow> depthState \<Rightarrow> string \<Rightarrow> (depthState \<times> int) option"
  and dfsImports ::
    "(string \<times> PackageDependency) list \<Rightarrow> string \<Rightarrow> (string \<times> string) list \<Rightarrow> nat
     \<Rightarrow> depthState \<Rightarrow> string list \<Rightarrow> int \<Rightarrow> (depthState \<times> int) option" where
  "dfs pkgDeps projectPrefix fullToRelPath 0 st pkgPath = None"
| "dfs pkgDeps projectPrefix fullToRelPath (Suc fuel) st pkgPath =
     (if flagOf (visited st) pkgPath then Some (st, depthOf (depths st) pkgPath)
      else if flagOf (inProgress st) pkgPath then Some (st, 0)
      else
        (let st1 = st\<lparr>inProgress := AList.update pkgPath True (inProgress st)\<rparr>;
             dep = map_of pkgDeps pkgPath
         in do {
              (st2, maxDepth) \<leftarrow>
                (case dep of
                   None \<Rightarrow> Some (st1, 0)
                 | Some d \<Rightarrow>
                     dfsImports pkgDeps projectPrefix fullToRelPath fuel st1
                       (PackageDependency.Imports d) 0);
              let depth =
                (if maxDepth > 0
                    \<or> (case dep of None \<Rightarrow> False
                        | Some d \<Rightarrow> length (PackageDependency.Imports d) > 0)
                 then maxDepth + 1 else 0);
              let st3 = st2\<lparr>depths := AList.update pkgPath depth (depths st2)\<rparr>;
              let st4 = st3\<lparr>visited := AList.update pkgPath True (visited st3)\<rparr>;
              let st5 = st4\<lparr>inProgress := AList.update pkgPath False (inProgress st4)\<rparr>;
              Some (st5, depthOf (depths st5) pkgPath)
            }))"
| "dfsImports pkgDeps projectPrefix fullToRelPath fuel st [] maxDepth = Some (st, maxDepth)"
| "dfsImports pkgDeps projectPrefix fullToRelPath fuel st (importPath # rest) maxDepth =
     (if prefix projectPrefix importPath then
        (case map_of fullToRelPath importPath of
           Some relPath \<Rightarrow>
             do {
               (st1, childDepth) \<leftarrow> dfs pkgDeps projectPrefix fullToRelPath fuel st relPath;
               dfsImports pkgDeps projectPrefix fullToRelPath fuel st1 rest
                 (if childDepth > maxDepth then childDepth else maxDepth)
             }
         | None \<Rightarrow> dfsImports pkgDeps projectPrefix fullToRelPath fuel st rest maxDepth)
      else dfsImports pkgDeps projectPrefix fullToRelPath fuel st rest maxDepth)"

fun depthOfPackages ::
  "(string \<times> PackageDependency) list \<Rightarrow> string \<Rightarrow> (string \<times> string) list \<Rightarrow> nat
   \<Rightarrow> depthState \<Rightarrow> string list \<Rightarrow> depthState option" where
  "depthOfPackages pkgDeps projectPrefix fullToRelPath fuel st [] = Some st"
| "depthOfPackages pkgDeps projectPrefix fullToRelPath fuel st (pkgPath # rest) =
     (if \<not> flagOf (visited st) pkgPath then
        do {
          (st1, d) \<leftarrow> dfs pkgDeps projectPrefix fullToRelPath fuel st pkgPath;
          depthOfPackages pkgDeps projectPrefix fullToRelPath fuel st1 rest
        }
      else depthOfPackages pkgDeps projectPrefix fullToRelPath fuel st rest)"

definition CalculateDependencyDepth ::
  "(string \<times> PackageDependency) list \<Rightarrow> string \<Rightarrow> (string \<times> int) list option" where
  "CalculateDependencyDepth pkgDeps projectPrefix =
     do {
       st \<leftarrow> depthOfPackages pkgDeps projectPrefix
               (buildFullToRelPath pkgDeps projectPrefix) (Suc (length pkgDeps))
               \<lparr>depths = [], visited = [], inProgress = []\<rparr> (map fst pkgDeps);
       Some (depths st)
     }"

section \<open>Method clustering (method_clustering.go)\<close>

record methodCallInfo =
  name :: string
  isPrivate :: bool
  calls :: "(string \<times> int) list"
  calledBy :: "string list"
  receiverName :: string
  isUtility :: bool

text \<open>
  The declaration of \<open>MethodCluster\<close> is not among the sources; its fields are those that
  \<open>findMethodClusters\<close>, \<open>AnalyzeMethodClustering\<close> and the diagnostics read and write.
\<close>

record MethodCluster =
  ID :: int
  Methods :: "string list"
  Size :: int
  CalledBy :: "string list"
  ResponsibilityHint :: string

definition WeightThreshold :: int where
  "WeightThreshold = 1"

definition MinClusterSize :: int where
  "MinClusterSize = 2"

definition MinClusterRatio :: real where
  "MinClusterRatio = 2 / 10"

text \<open>
  \<open>buildPrivateMethodCallGraph\<close>: every private method gets an entry; a utility method
  keeps an empty one.
\<close>

definition calleesOf ::
  "(string \<times> methodCallInfo) list \<Rightarrow> methodCallInfo \<Rightarrow> (string \<times> int) list" where
  "calleesOf privateMethods info =
     fold (\<lambda>(calledMethod, frequency) edges.
             (case map_of privateMethods calledMethod of
                Some calledInfo \<Rightarrow>
                  (if \<not> isUtility calledInfo \<and> frequency \<ge> WeightThreshold
                   then AList.update calledMethod frequency edges
                   else edges)
              | None \<Rightarrow> edges))
          (calls info) []"

definition buildPrivateMethodCallGraph ::
  "(string \<times> methodCallInfo) list \<Rightarrow> (string \<times> methodCallInfo) list
   \<Rightarrow> (string \<times> (string \<times> int) list) list" where
  "buildPrivateMethodCallGraph privateMethods allMethods =
     fold (\<lambda>(privateMethod, pinfo) graph.
             (case map_of allMethods privateMethod of
                Some info \<Rightarrow>
                  (if isUtility info then AList.update privateMethod [] graph
                   else AList.update privateMethod (calleesOf privateMethods info) graph)
              | None \<Rightarrow> AList.update privateMethod [] graph))
          privateMethods []"

text \<open>The loops of \<open>findMethodClusters\<close>.\<close>

definition addPrivateMethods ::
  "(string \<times> methodCallInfo) list \<Rightarrow> unionFind \<times> int \<Rightarrow> unionFind \<times> int" where
  "addPrivateMethods privateMethods start =
     fold (\<lambda>(method, info) (uf, totalMethods).
             if \<not> isUtility info then (uf_add uf method, totalMethods + 1)
             else (uf, totalMethods))
          privateMethods start"

fun connectCallees :: "unionFind \<Rightarrow> string \<Rightarrow> string list \<Rightarrow> unionFind option" where
  "connectCallees uf caller [] = Some uf"
| "connectCallees uf caller (callee # callees) =
     do { uf1 \<leftarrow> uf_union uf caller callee; connectCallees uf1 caller callees }"

fun connectCallers :: "unionFind \<Rightarrow> (string \<times> (string \<times> int) list) list \<Rightarrow> unionFind option" where
  "connectCallers uf [] = Some uf"
| "connectCallers uf ((caller, callees) # callGraph) =
     do { uf1 \<leftarrow> connectCallees uf caller (map fst callees); connectCallers uf1 callGraph }"

text \<open>
  The filter: a component is kept if it has at least \<open>minSize\<close> methods or is the only
  component. \<open>sort.Strings\<close> is \<open>sort\<close> on the byte order of strings.
\<close>

fun filterClusters :: "int \<Rightarrow> nat \<Rightarrow> string list list \<Rightarrow> MethodCluster list \<Rightarrow> MethodCluster list" where
  "filterClusters minSize nComponents [] clusters = clusters"
| "filterClusters minSize nComponents (component # components) clusters =
     filterClusters minSize nComponents components
       (if int (length component) \<ge> minSize \<or> nComponents = 1
        then clusters @ [\<lparr>ID = int (length clusters) + 1,
                           Methods = sort component,
                           Size = int (length component),
                           CalledBy = [],
                           ResponsibilityHint = []\<rparr>]
        else clusters)"

text \<open>
  \<open>sort.Slice\<close> by decreasing size (it leaves the order of clusters of equal size open;
  the model keeps them in place), then the identifiers \<open>1..N\<close>.
\<close>

definition sortBySize :: "MethodCluster list \<Rightarrow> MethodCluster list" where
  "sortBySize clusters = sort_key (\<lambda>c. - Size c) clusters"

definition reassignIDs :: "MethodCluster list \<Rightarrow> MethodCluster list" where
  "reassignIDs clusters = map (\<lambda>(i, c). c\<lparr>ID := int i + 1\<rparr>) (enumerate 0 clusters)"

text \<open>
  \<open>findMethodClusters\<close>. The source computes \<open>ratioBasedMin\<close> inside the \<open>if\<close> and never
  reads it afterwards: \<open>minSize\<close> stays \<open>MinClusterSize\<close>. The conversion \<open>int(x)\<close> of a
  non-negative \<open>float64\<close> truncates.
\<close>

definition findMethodClusters ::
  "(real \<Rightarrow> real) \<Rightarrow> (string \<times> (string \<times> int) list) list \<Rightarrow> (string \<times> methodCallInfo) list
   \<Rightarrow> MethodCluster list option" where
  "findMethodClusters rnd callGraph privateMethods =
     (let (uf0, totalMethods) = addPrivateMethods privateMethods (newUnionFind, 0)
      in do {
           uf1 \<leftarrow> connectCallers uf0 callGraph;
           (uf2, components) \<leftarrow> getComponents uf1;
           let minSize = MinClusterSize;
           let ratioBasedMin =
             (if totalMethods > 0
              then (let r = \<lfloor>rnd (float64 rnd totalMethods * rnd MinClusterRatio)\<rfloor>
                    in if r < minSize then minSize else r)
              else 0);
           let clusters = filterClusters minSize (length components) components [];
           Some (reassignIDs (sortBySize clusters))
         })"

text \<open>The threshold of the specification: \<open>max(2, round(totalMethods * 0.2))\<close>.\<close>

definition specMinClusterSize :: "int \<Rightarrow> int" where
  "specMinClusterSize totalMethods = max 2 (round (real_of_int totalMethods * (2 / 10)))"

section \<open>Cluster-count estimate of the field-usage analysis (field_matrix.go)\<close>

text \<open>
  The difference, the product and the square root of \<open>float64\<close> values, each rounded by
  \<open>rnd\<close>.
\<close>

definition fsub :: "(real \<Rightarrow> real) \<Rightarrow> real \<Rightarrow> real \<Rightarrow> real" where
  "fsub rnd x y = rnd (x - y)"

definition fmul :: "(real \<Rightarrow> real) \<Rightarrow> real \<Rightarrow> real \<Rightarrow> real" where
  "fmul rnd x y = rnd (x * y)"

definition fsqrt :: "(real \<Rightarrow> real) \<Rightarrow> real \<Rightarrow> real" where
  "fsqrt rnd x = rnd (sqrt x)"

text \<open>
  A matrix is the list of its rows. The matrices here are rectangular: the usage matrix has
  one entry per field in every row, and the covariance matrix is square, so that no index
  of the loops below is out of range (where Go would panic). \<open>centerMatrix\<close> subtracts
  from each column its mean; the sums are accumulated from \<open>0.0\<close> in the order of the
  loops.
\<close>

definition centerMatrix :: "(real \<Rightarrow> real) \<Rightarrow> real list list \<Rightarrow> real list list" where
  "centerMatrix rnd matrix =
     (if length matrix = 0 then matrix
      else
        (let rows = length matrix;
             cols = length (hd matrix);
             means = map (\<lambda>j. fdiv rnd
                                (fold (\<lambda>i sum. fadd rnd sum (matrix ! i ! j)) [0..<rows] 0)
                                (float64 rnd (int rows)))
                         [0..<cols]
         in map (\<lambda>i. map (\<lambda>j. fsub rnd (matrix ! i ! j) (means ! j)) [0..<cols]) [0..<rows]))"

text \<open>
  \<open>computeCovarianceMatrix\<close>: the entry of columns \<open>i \<le> j\<close> is computed and copied to the
  entry of \<open>j\<close> and \<open>i\<close>. \<open>AnalyzeFieldMatrix\<close> calls it with at least two rows, so the
  divisor \<open>rows - 1\<close> is not zero.
\<close>

definition computeCovarianceMatrix :: "(real \<Rightarrow> real) \<Rightarrow> real list list \<Rightarrow> real list list" where
  "computeCovarianceMatrix rnd matrix =
     (if length matrix = 0 then []
      else
        (let rows = length matrix;
             cols = length (hd matrix);
             cov = (\<lambda>i j. fdiv rnd
                      (fold (\<lambda>k sum. fadd rnd sum (fmul rnd (matrix ! k ! i) (matrix ! k ! j)))
                         [0..<rows] 0)
                      (float64 rnd (int rows - 1)))
         in map (\<lambda>i. map (\<lambda>j. if i \<le> j then cov i j else cov j i) [0..<cols]) [0..<cols]))"

text \<open>
  The inner loops of \<open>powerIteration\<close>: the product of the matrix and the vector, and the
  sum of the products of the entries of two vectors, for vectors of \<open>n\<close> entries.
\<close>

definition matVec :: "(real \<Rightarrow> real) \<Rightarrow> real list list \<Rightarrow> real list \<Rightarrow> nat \<Rightarrow> real list" where
  "matVec rnd matrix v n =
     map (\<lambda>i. fold (\<lambda>j x. fadd rnd x (fmul rnd (matrix ! i ! j) (v ! j))) [0..<n] 0) [0..<n]"

definition dot :: "(real \<Rightarrow> real) \<Rightarrow> real list \<Rightarrow> real list \<Rightarrow> nat \<Rightarrow> real" where
  "dot rnd a b n = fold (\<lambda>i x. fadd rnd x (fmul rnd (a ! i) (b ! i))) [0..<n] 0"

text \<open>
  The loop \<open>for iter := 0; iter < maxIter; iter++\<close> of \<open>powerIteration\<close>, with the rounds
  still to run, the vector \<open>v\<close> and the variable \<open>eigenvalue\<close>; the \<open>break\<close> leaves the
  loop with the eigenvalue of the round.
\<close>

fun powerLoop ::
  "(real \<Rightarrow> real) \<Rightarrow> real list list \<Rightarrow> nat \<Rightarrow> nat \<Rightarrow> real list \<Rightarrow> real \<Rightarrow> real" where
  "powerLoop rnd matrix n 0 v eigenvalue = eigenvalue"
| "powerLoop rnd matrix n (Suc rest) v eigenvalue =
     (let newV = matVec rnd matrix v n;
          numerator = dot rnd newV v n;
          denominator = dot rnd v v n;
          eigenvalue = (if denominator > 0 then fdiv rnd numerator denominator else eigenvalue);
          norm = fsqrt rnd (dot rnd newV newV n)
      in if norm < rnd (1 / 10 ^ 10) then eigenvalue
         else powerLoop rnd matrix n rest (map (\<lambda>x. fdiv rnd x norm) newV) eigenvalue)"

definition powerIteration :: "(real \<Rightarrow> real) \<Rightarrow> real list list \<Rightarrow> nat \<Rightarrow> real" where
  "powerIteration rnd matrix maxIter =
     (if length matrix = 0 then 0
      else
        (let n = length matrix;
             v = replicate n (fdiv rnd (rnd 1) (fsqrt rnd (float64 rnd (int n))))
         in \<bar>powerLoop rnd matrix n maxIter v 0\<bar>))"

definition deflateMatrix :: "(real \<Rightarrow> real) \<Rightarrow> real list list \<Rightarrow> real \<Rightarrow> real list list" where
  "deflateMatrix rnd matrix eigenvalue =
     map (\<lambda>i. (matrix ! i)[i := fsub rnd (matrix ! i ! i) (fmul rnd eigenvalue (rnd (1 / 2)))])
       [0..<length matrix]"

text \<open>
  \<open>computeTopEigenvalues\<close>: the loop \<open>for iter := 0; iter < k; iter++\<close> with the rounds still
  to run and the work matrix, which \<open>deflateMatrix\<close> updates in place. The work matrix is
  a copy (\<open>copyMatrix\<close>), so the matrix of the caller is not changed.
\<close>

fun eigenLoop :: "(real \<Rightarrow> real) \<Rightarrow> nat \<Rightarrow> real list list \<Rightarrow> real list" where
  "eigenLoop rnd 0 workMatrix = []"
| "eigenLoop rnd (Suc k) workMatrix =
     (let eigenvalue = powerIteration rnd workMatrix 100
      in if eigenvalue \<le> rnd (1 / 10 ^ 10) then []
         else eigenvalue # eigenLoop rnd k (deflateMatrix rnd workMatrix eigenvalue))"

definition computeTopEigenvalues :: "(real \<Rightarrow> real) \<Rightarrow> real list list \<Rightarrow> nat \<Rightarrow> real list" where
  "computeTopEigenvalues rnd matrix k =
     (if length matrix = 0 then []
      else eigenLoop rnd (if k > length matrix then length matrix else k) matrix)"

text \<open>
  The three loops of \<open>estimateClusterCount\<close>. The constants \<open>1.0\<close>, \<open>0.1\<close> and \<open>0.8\<close> of the
  source are the \<open>float64\<close> values \<open>rnd 1\<close>, \<open>rnd (1/10)\<close> and \<open>rnd (8/10)\<close>.
\<close>

definition kaiserCount :: "(real \<Rightarrow> real) \<Rightarrow> real list \<Rightarrow> int" where
  "kaiserCount rnd eigenvalues =
     fold (\<lambda>ev c. if ev > rnd 1 then c + 1 else c) eigenvalues 0"

text \<open>The loop \<open>for i := 0; i < len(explainedVariance)-1; i++\<close> with its \<open>break\<close>.\<close>

function elbowLoop :: "(real \<Rightarrow> real) \<Rightarrow> real list \<Rightarrow> int \<Rightarrow> int \<Rightarrow> int" where
  "elbowLoop rnd explainedVariance i elbowCount =
     (if 0 \<le> i \<and> i < int (length explainedVariance) - 1 then
        (if explainedVariance ! nat i > rnd (1 / 10)
         then elbowLoop rnd explainedVariance (i + 1) (i + 1)
         else elbowCount)
      else elbowCount)"
  by pat_completeness auto
termination
  by (relation "measure (\<lambda>(rnd, ev, i, c). nat (int (length ev) - i))") auto

definition elbowCount :: "(real \<Rightarrow> real) \<Rightarrow> real list \<Rightarrow> int" where
  "elbowCount rnd explainedVariance = elbowLoop rnd explainedVariance 0 1"

text \<open>The loop \<open>for i, ratio := range explainedVariance\<close> with its \<open>break\<close>.\<close>

fun varianceLoop :: "(real \<Rightarrow> real) \<Rightarrow> real list \<Rightarrow> int \<Rightarrow> real \<Rightarrow> int \<Rightarrow> int" where
  "varianceLoop rnd [] i cumulativeVariance varianceCount = varianceCount"
| "varianceLoop rnd (ratio # rest) i cumulativeVariance varianceCount =
     (let cumulativeVariance = fadd rnd cumulativeVariance ratio;
          varianceCount = i + 1
      in if cumulativeVariance \<ge> rnd (8 / 10) then varianceCount
         else varianceLoop rnd rest (i + 1) cumulativeVariance varianceCount)"

definition varianceCount :: "(real \<Rightarrow> real) \<Rightarrow> real list \<Rightarrow> int" where
  "varianceCount rnd explainedVariance = varianceLoop rnd explainedVariance 0 0 0"

definition estimateClusterCount :: "(real \<Rightarrow> real) \<Rightarrow> real list \<Rightarrow> real list \<Rightarrow> int" where
  "estimateClusterCount rnd eigenvalues explainedVariance =
     (if length eigenvalues = 0 then 1
      else
        (let estimate = kaiserCount rnd eigenvalues;
             estimate = (if elbowCount rnd explainedVariance > estimate
                         then elbowCount rnd explainedVariance else estimate);
             estimate = (if varianceCount rnd explainedVariance < estimate
                         then varianceCount rnd explainedVariance else estimate);
             estimate = (if estimate < 1 then 1 else estimate);
             estimate = (if estimate > 5 then 5 else estimate)
         in estimate))"

text \<open>
  \<open>estimateClustersViaPCA\<close>, in three parts: \<open>eigenvaluesOf\<close> is its computation of the
  eigenvalues from the usage matrix, \<open>explainedVarianceOf\<close> that of the explained variance
  ratios from the eigenvalues.
\<close>

definition explainedVarianceOf :: "(real \<Rightarrow> real) \<Rightarrow> real list \<Rightarrow> real list" where
  "explainedVarianceOf rnd eigenvalues =
     (let totalVariance = fold (\<lambda>ev t. if ev > 0 then fadd rnd t ev else t) eigenvalues 0
      in map (\<lambda>ev. if totalVariance > 0 then fdiv rnd ev totalVariance else 0) eigenvalues)"

definition eigenvaluesOf :: "(real \<Rightarrow> real) \<Rightarrow> int list list \<Rightarrow> real list" where
  "eigenvaluesOf rnd matrix =
     (let floatMatrix = map (map (float64 rnd)) matrix;
          centeredMatrix = centerMatrix rnd floatMatrix;
          covMatrix = computeCovarianceMatrix rnd centeredMatrix
      in computeTopEigenvalues rnd covMatrix 5)"

definition estimateClustersViaPCA :: "(real \<Rightarrow> real) \<Rightarrow> int list list \<Rightarrow> int \<times> real list" where
  "estimateClustersViaPCA rnd matrix =
     (let eigenvalues = eigenvaluesOf rnd matrix;
          explainedVariance = explainedVarianceOf rnd eigenvalues;
          clusters = estimateClusterCount rnd eigenvalues explainedVariance
      in (clusters, explainedVariance))"

record methodFieldUsageWeighted =
  methodName :: string
  fieldUsage :: "(string \<times> int) list"

definition usageOf :: "(string \<times> int) list \<Rightarrow> string \<Rightarrow> int" where
  "usageOf m k = (case map_of m k of None \<Rightarrow> 0 | Some w \<Rightarrow> w)"

definition buildWeightedUsageMatrix ::
  "methodFieldUsageWeighted list \<Rightarrow> string list \<Rightarrow> int list list \<times> string list" where
  "buildWeightedUsageMatrix methods structFields =
     (map (\<lambda>m. map (\<lambda>f. usageOf (fieldUsage m) f) structFields) methods, map methodName methods)"

text \<open>
  The declaration of \<open>FieldMatrixAnalysis\<close> is not among the sources; its fields are those
  that \<open>AnalyzeFieldMatrix\<close> fills.
\<close>

record FieldMatrixAnalysis =
  Matrix :: "int list list"
  MethodNames :: "string list"
  FieldNames :: "string list"
  EstimatedClusters :: int
  ExplainedVariance :: "real list"
  HasMultipleResponsibilities :: bool
  Recommendations :: string

text \<open>
  \<open>AnalyzeFieldMatrix\<close>, from the extracted methods on. \<open>None\<close> is the \<open>nil\<close> result.
  Parameters: the predicate \<open>isUtilityMethod\<close> on method names (which lowers the case of
  Unicode text), and \<open>generateRecommendations\<close>, which formats floating-point numbers.
\<close>

definition AnalyzeFieldMatrix ::
  "(real \<Rightarrow> real) \<Rightarrow> (string \<Rightarrow> bool) \<Rightarrow> (int \<Rightarrow> int \<Rightarrow> int \<Rightarrow> real list \<Rightarrow> string)
   \<Rightarrow> methodFieldUsageWeighted list \<Rightarrow> string list \<Rightarrow> FieldMatrixAnalysis option" where
  "AnalyzeFieldMatrix rnd isUtilityMethod generateRecommendations methods structFields =
     (if length structFields < 3 then None
      else if length methods = 0 then None
      else
        (let filteredMethods = filter (\<lambda>m. \<not> isUtilityMethod (methodName m)) methods
         in if length filteredMethods < 2 then None
            else
              (let (matrix, methodNames) = buildWeightedUsageMatrix filteredMethods structFields
               in if length matrix < 2 \<or> length (hd matrix) < 3 then None
                  else
                    (let (estimatedClusters, explainedVariance) =
                           estimateClustersViaPCA rnd matrix;
                         recommendations =
                           generateRecommendations estimatedClusters
                             (int (length methodNames)) (int (length structFields)) explainedVariance
                     in Some \<lparr>Matrix = matrix,
                              MethodNames = methodNames,
                              FieldNames = structFields,
                              EstimatedClusters = estimatedClusters,
                              ExplainedVariance = explainedVariance,
                              HasMultipleResponsibilities = (estimatedClusters \<ge> 2),
                              Recommendations = recommendations\<rparr>))))"

text \<open>
  The estimate as the specification words it: the elbow count is the number of leading
  components whose explained variance exceeds 10%, the Kaiser count and the
  cumulative-variance count are those of the loops above, and the estimate is the larger
  of the first two, lowered to the third, then brought into the range 1 to 5.
\<close>

definition specElbowCount :: "(real \<Rightarrow> real) \<Rightarrow> real list \<Rightarrow> int" where
  "specElbowCount rnd explainedVariance =
     int (length (takeWhile (\<lambda>ratio. ratio > rnd (1 / 10)) explainedVariance))"

definition specClusterEstimate :: "(real \<Rightarrow> real) \<Rightarrow> real list \<Rightarrow> real list \<Rightarrow> int" where
  "specClusterEstimate rnd eigenvalues explainedVariance =
     min 5 (max 1 (min (max (kaiserCount rnd eigenvalues) (specElbowCount rnd explainedVariance))
                       (varianceCount rnd explainedVariance)))"

text \<open>
  What holds of every function result before the instability is computed: the counts are
  not negative and the instability is still the initial 0.
\<close>

definition okResult :: "FunctionResult \<Rightarrow> bool" where
  "okResult r = (0 \<le> FunctionResult.Afferent r \<and> 0 \<le> FunctionResult.Efferent r
                 \<and> FunctionResult.Instability r = 0)"

section \<open>Concrete inputs\<close>

text \<open>A function whose body is \<open>if a && b { }\<close>, and a declaration without a body.\<close>

definition exampleBody :: blockStmt where
  "exampleBody =
     \<lparr>Lbrace = 1, Rbrace = 3,
      Stmts = [IfStmt None (BinaryExpr (Ident ''a'') LAND (Ident ''b'')) (OtherNode []) None]\<rparr>"

definition exampleFunc :: funcDecl where
  "exampleFunc = \<lparr>Recv = None, Name = ''f'', Body = Some exampleBody\<rparr>"

definition externalFunc :: funcDecl where
  "externalFunc = \<lparr>Recv = None, Name = ''g'', Body = None\<rparr>"

text \<open>The condition \<open>x < y\<close>, to be put around the statement of \<open>exampleBody\<close>.\<close>

definition exampleCond :: node where
  "exampleCond = BinaryExpr (Ident ''x'') OtherOp (Ident ''y'')"

text \<open>The init statement \<open>v := x\<close>, which brings no decision point.\<close>

definition exampleInit :: "node option" where
  "exampleInit = Some (OtherNode [Ident ''v'', Ident ''x''])"

text \<open>
  A function with the given statements as its body; the assignment of \<open>a || b\<close> to a
  variable, as an init statement \<open>ok := a || b\<close> or a statement \<open>ok = a || b\<close>; and the
  condition \<open>func() bool { for { } }()\<close>, a call of a function literal whose body is a
  loop.
\<close>

definition funcOfStmts :: "node list \<Rightarrow> funcDecl" where
  "funcOfStmts stmts =
     \<lparr>Recv = None, Name = ''f'', Body = Some \<lparr>Lbrace = 1, Rbrace = 3, Stmts = stmts\<rparr>\<rparr>"

definition initWithOr :: node where
  "initWithOr = OtherNode [Ident ''ok'', BinaryExpr (Ident ''a'') LOR (Ident ''b'')]"

definition condWithLoop :: node where
  "condWithLoop =
     CallExpr (OtherNode [OtherNode [Ident ''bool''], OtherNode [ForStmt [OtherNode []]]]) []"

text \<open>A struct with two fields in a file that declares no method.\<close>

definition plainStruct :: "field list option" where
  "plainStruct = Some [\<lparr>Names = [''id'', ''label''], Type = Ident ''string''\<rparr>]"

definition fileWithoutMethods :: goFile where
  "fileWithoutMethods = \<lparr>goFile.Imports = [], Decls = [exampleFunc]\<rparr>"

text \<open>
  A package with afferent coupling 12 and structs of LCOM4 6 and 4, and a package with
  afferent coupling 9 and a struct of LCOM4 7.
\<close>

definition structWithScore :: "string \<Rightarrow> int \<Rightarrow> StructResult" where
  "structWithScore n score =
     \<lparr>StructName = n, StructResult.FilePath = ''store.go'', LCOM4Score = score,
      ComponentDetails = []\<rparr>"

definition packageWith :: "string \<Rightarrow> int \<Rightarrow> StructResult list \<Rightarrow> PackageResult" where
  "packageWith n ca ss =
     \<lparr>PackageResult.Name = n, Path = n, Afferent = ca, Efferent = 0, Instability = 0,
      Structs = ss, Functions = [], TotalLoC = 0, AvgFuncLoC = 0, FuncCount = 0,
      FileCount = 1, DependencyDepth = 0\<rparr>"

definition examplePackages :: "PackageResult list" where
  "examplePackages =
     [packageWith ''store'' 12 [structWithScore ''Manager'' 6, structWithScore ''Row'' 4],
      packageWith ''cli'' 9 [structWithScore ''App'' 7]]"

text \<open>Four packages of a project \<open>proj\<close>; \<open>a\<close> and \<open>d\<close> import the standard library.\<close>

definition examplePkgDeps :: "(string \<times> PackageDependency) list" where
  "examplePkgDeps =
     [(''a'', \<lparr>PkgPath = ''proj/a'', Imports = [''proj/b'', ''proj/c'', ''fmt''],
              ImportedBy = []\<rparr>),
      (''b'', \<lparr>PkgPath = ''proj/b'', Imports = [''proj/c''], ImportedBy = [''proj/a'']\<rparr>),
      (''c'', \<lparr>PkgPath = ''proj/c'', Imports = [], ImportedBy = [''proj/a'', ''proj/b'']\<rparr>),
      (''d'', \<lparr>PkgPath = ''proj/d'', Imports = [''fmt''], ImportedBy = []\<rparr>)]"

text \<open>A file with the function \<open>f\<close> above and a function that calls \<open>f\<close> and \<open>fmt.Println\<close>.\<close>

definition callerFunc :: funcDecl where
  "callerFunc =
     \<lparr>Recv = None, Name = ''main'',
      Body = Some \<lparr>Lbrace = 5, Rbrace = 8,
        Stmts = [OtherNode [CallExpr (Ident ''f'') []],
                 OtherNode [CallExpr (SelectorExpr (Ident ''fmt'') ''Println'') []]]\<rparr>\<rparr>"

definition exampleFiles :: "(string \<times> goFile) list" where
  "exampleFiles =
     [(''main.go'',
       \<lparr>goFile.Imports =
          [\<lparr>ImportName = None, ImportPath = [CHR 0x22] @ ''fmt'' @ [CHR 0x22]\<rparr>],
        Decls = [exampleFunc, callerFunc]\<rparr>)]"

text \<open>
  A struct with the fields \<open>path\<close>, \<open>data\<close> and \<open>out\<close> and two methods: \<open>render\<close> reads
  \<open>out\<close>, and \<open>load\<close> reads \<open>path\<close> and \<open>data\<close>. Neither name is one of a utility method.
  The analysis is run in exact arithmetic.
\<close>

definition exampleUsage :: "methodFieldUsageWeighted list" where
  "exampleUsage =
     [\<lparr>methodName = ''render'', fieldUsage = [(''out'', 1)]\<rparr>,
      \<lparr>methodName = ''load'', fieldUsage = [(''path'', 1), (''data'', 1)]\<rparr>]"

definition exampleMatrix :: "int list list" where
  "exampleMatrix = [[0, 0, 1], [1, 1, 0]]"

text \<open>
  The covariance matrix of \<open>exampleMatrix\<close> and the work matrix of
  \<open>computeTopEigenvalues\<close> after the first and after the second deflation; \<open>startEntry\<close> is
  the entry of the start vector of \<open>powerIteration\<close> for a matrix of three rows.
\<close>

definition exampleCovariance :: "real list list" where
  "exampleCovariance =
     [[1 / 2, 1 / 2, - (1 / 2)], [1 / 2, 1 / 2, - (1 / 2)], [- (1 / 2), - (1 / 2), 1 / 2]]"

definition deflatedOnce :: "real list list" where
  "deflatedOnce =
     [[- (1 / 4), 1 / 2, - (1 / 2)], [1 / 2, - (1 / 4), - (1 / 2)],
      [- (1 / 2), - (1 / 2), - (1 / 4)]]"

definition deflatedTwice :: "real list list" where
  "deflatedTwice =
     [[- (13 / 24), 1 / 2, - (1 / 2)], [1 / 2, - (13 / 24), - (1 / 2)],
      [- (1 / 2), - (1 / 2), - (13 / 24)]]"

definition startEntry :: real where
  "startEntry = 1 / sqrt 3"

definition exampleAnalysis :: "FieldMatrixAnalysis option" where
  "exampleAnalysis =
     AnalyzeFieldMatrix (\<lambda>x. x) (\<lambda>n. False) (\<lambda>c m f v. [])
       exampleUsage [''path'', ''data'', ''out'']"

text \<open>
  Two packages: \<open>leaf\<close> imports only the standard library, \<open>top\<close> imports \<open>leaf\<close>. And the
  chain of three packages \<open>a\<close>, \<open>b\<close>, \<open>c\<close> in which \<open>c\<close> imports nothing.
\<close>

definition leafWithExternalImport :: "(string \<times> PackageDependency) list" where
  "leafWithExternalImport =
     [(''leaf'', \<lparr>PkgPath = ''proj/leaf'', Imports = [''fmt''], ImportedBy = [''proj/top'']\<rparr>),
      (''top'', \<lparr>PkgPath = ''proj/top'', Imports = [''proj/leaf''], ImportedBy = []\<rparr>)]"

definition chainOfThree :: "(string \<times> PackageDependency) list" where
  "chainOfThree =
     [(''a'', \<lparr>PkgPath = ''proj/a'', Imports = [''proj/b''], ImportedBy = []\<rparr>),
      (''b'', \<lparr>PkgPath = ''proj/b'', Imports = [''proj/c''], ImportedBy = [''proj/a'']\<rparr>),
      (''c'', \<lparr>PkgPath = ''proj/c'', Imports = [], ImportedBy = [''proj/b'']\<rparr>)]"

text \<open>
  Fifteen private methods of a struct \<open>S\<close>, none of them a utility: \<open>a\<close> calls \<open>b\<close> to
  \<open>m\<close>, and \<open>n\<close> calls \<open>o\<close>.
\<close>

definition privateMethod :: "string \<Rightarrow> string list \<Rightarrow> string \<times> methodCallInfo" where
  "privateMethod n callees =
     (n, \<lparr>methodCallInfo.name = n, isPrivate = True, calls = map (\<lambda>c. (c, 1)) callees,
          calledBy = [], receiverName = ''s'', isUtility = False\<rparr>)"

definition fifteenMethods :: "(string \<times> methodCallInfo) list" where
  "fifteenMethods =
     [privateMethod ''S.a'' [''S.b'', ''S.c'', ''S.d'', ''S.e'', ''S.f'', ''S.g'', ''S.h'',
                             ''S.i'', ''S.j'', ''S.k'', ''S.l'', ''S.m''],
      privateMethod ''S.b'' [], privateMethod ''S.c'' [], privateMethod ''S.d'' [],
      privateMethod ''S.e'' [], privateMethod ''S.f'' [], privateMethod ''S.g'' [],
      privateMethod ''S.h'' [], privateMethod ''S.i'' [], privateMethod ''S.j'' [],
      privateMethod ''S.k'' [], privateMethod ''S.l'' [], privateMethod ''S.m'' [],
      privateMethod ''S.n'' [''S.o''], privateMethod ''S.o'' []]"

text \<open>
  A method \<open>func (recv *structName) mname()\<close> whose body is one statement
  \<open>recv.f\<close> for each of the given names \<open>f\<close>.
\<close>

definition methodDecl :: "string \<Rightarrow> string \<Rightarrow> string \<Rightarrow> string list \<Rightarrow> funcDecl" where
  "methodDecl structName recv mname selected =
     \<lparr>Recv = Some [\<lparr>Names = [recv], Type = StarExpr (Ident structName)\<rparr>],
      Name = mname,
      Body = Some \<lparr>Lbrace = 1, Rbrace = 2,
                   Stmts = map (\<lambda>f. OtherNode [SelectorExpr (Ident recv) f]) selected\<rparr>\<rparr>"

text \<open>The struct \<open>type T struct{}\<close> with the methods \<open>a\<close> and \<open>b\<close>.\<close>

definition emptyStruct :: "field list option" where
  "emptyStruct = Some []"

definition emptyStructFile :: goFile where
  "emptyStructFile =
     \<lparr>goFile.Imports = [],
      Decls = [methodDecl ''T'' ''t'' ''a'' [], methodDecl ''T'' ''t'' ''b'' []]\<rparr>"

text \<open>
  The struct \<open>type T struct { _, _ int }\<close> with the method \<open>m\<close>, and the struct
  \<open>type T struct { _ int }\<close> with the method \<open>_\<close>; the methods use no field.
\<close>

definition blankFieldsStruct :: "field list option" where
  "blankFieldsStruct = Some [\<lparr>Names = [''_'', ''_''], Type = Ident ''int''\<rparr>]"

definition blankFieldsFile :: goFile where
  "blankFieldsFile = \<lparr>goFile.Imports = [], Decls = [methodDecl ''T'' ''t'' ''m'' []]\<rparr>"

definition blankMethodStruct :: "field list option" where
  "blankMethodStruct = Some [\<lparr>Names = [''_''], Type = Ident ''int''\<rparr>]"

definition blankMethodFile :: goFile where
  "blankMethodFile = \<lparr>goFile.Imports = [], Decls = [methodDecl ''T'' ''t'' ''_'' []]\<rparr>"

text \<open>A struct with the fields \<open>x\<close> and \<open>y\<close> and two methods that use both.\<close>

definition vecStruct :: "field list option" where
  "vecStruct = Some [\<lparr>Names = [''x'', ''y''], Type = Ident ''float64''\<rparr>]"

definition vecFile :: goFile where
  "vecFile =
     \<lparr>goFile.Imports = [],
      Decls = [methodDecl ''Vec'' ''v'' ''Move'' [''x'', ''y''],
               methodDecl ''Vec'' ''v'' ''Norm'' [''y'', ''x'']]\<rparr>"

text \<open>
  A struct with three fields: \<open>Deposit\<close> uses \<open>balance\<close>, \<open>Owner\<close> uses \<open>owner\<close> and
  \<open>balance\<close>, \<open>Audit\<close> uses \<open>log\<close>.
\<close>

definition accountStruct :: "field list option" where
  "accountStruct =
     Some [\<lparr>Names = [''balance''], Type = Ident ''int''\<rparr>,
           \<lparr>Names = [''owner'', ''log''], Type = Ident ''string''\<rparr>]"

definition accountFile :: goFile where
  "accountFile =
     \<lparr>goFile.Imports = [],
      Decls = [methodDecl ''Account'' ''a'' ''Deposit'' [''balance''],
               methodDecl ''Account'' ''a'' ''Owner'' [''owner'', ''balance''],
               exampleFunc,
               methodDecl ''Account'' ''a'' ''Audit'' [''log'']]\<rparr>"

text \<open>A sequence of operations in which every \<open>union\<close> is on nodes added before.\<close>

definition exampleOps :: "ufOp list" where
  "exampleOps = [Add ''a'', Add ''b'', Add ''c'', Union ''a'' ''b'', Add ''a'', Union ''c'' ''c'']"

chapter \<open>Properties\<close>

section \<open>Cyclomatic complexity\<close>

lemma fold_countDecision: "fold countDecision ns c = c + points ns"
proof (induction ns arbitrary: c)
  case Nil
  show ?case by (simp add: points_def)
next
  case (Cons n ns)
  have step: "countDecision n c = c + countDecision n 0" for c
    by (cases n) simp_all
  have "fold countDecision (n # ns) c = countDecision n c + points ns"
    using Cons.IH by simp
  moreover have "points (n # ns) = countDecision n 0 + points ns"
    using Cons.IH [of "countDecision n 0"] by (simp add: points_def)
  ultimately show ?case using step [of c] by simp
qed

lemma points_Nil [simp]: "points [] = 0"
  by (simp add: points_def)

lemma points_Cons: "points (n # ns) = countDecision n 0 + points ns"
  using fold_countDecision [of ns "countDecision n 0"] by (simp add: points_def)

lemma points_append [simp]: "points (xs @ ys) = points xs + points ys"
  using fold_countDecision [of ys "points xs"] by (simp add: points_def)

lemma points_by_kind:
  "points ns = int (length (filter isIf ns)) + int (length (filter isLoop ns))
     + int (length (filter isSwitch ns)) + int (length (filter isValueCase ns))
     + int (length (filter isCommCase ns)) + int (length (filter isLogicalOp ns))"
proof (induction ns)
  case Nil
  show ?case by simp
next
  case (Cons n ns)
  show ?case
    by (cases n) (simp_all add: points_Cons Cons.IH)
qed

lemma complexity_points:
  "Body fd = Some body \<Longrightarrow> calculateFunctionComplexity fd = 1 + points (walk (blockNode body))"
  using fold_countDecision [of "walk (blockNode body)" 1]
  by (simp add: calculateFunctionComplexity_def)

text \<open>
  Claim C5. The complexity of a function is 1 plus the number of if statements, of for
  and range loops, of switch and type-switch statements, of case clauses with at least one
  match value, of select cases with a communication, and of occurrences of the logical
  operators \<open>&&\<close> and \<open>||\<close> in its body; a function without a body has complexity 1 and
  zero lines.
\<close>

theorem complexity_counts_decision_points:
  "(Body fd = None \<longrightarrow>
      calculateFunctionComplexity fd = 1 \<and> CalculateFunctionLoC (Some fd) = 0)
   \<and> (\<forall>body. Body fd = Some body \<longrightarrow>
        calculateFunctionComplexity fd =
          1 + occurrences isIf (blockNode body) + occurrences isLoop (blockNode body)
            + occurrences isSwitch (blockNode body) + occurrences isValueCase (blockNode body)
            + occurrences isCommCase (blockNode body)
            + occurrences isLogicalOp (blockNode body))"
proof (intro conjI impI allI)
  assume "Body fd = None"
  then show "calculateFunctionComplexity fd = 1"
    by (simp add: calculateFunctionComplexity_def)
next
  assume "Body fd = None"
  then show "CalculateFunctionLoC (Some fd) = 0"
    by (simp add: CalculateFunctionLoC_def)
next
  fix body
  assume b: "Body fd = Some body"
  show "calculateFunctionComplexity fd =
          1 + occurrences isIf (blockNode body) + occurrences isLoop (blockNode body)
            + occurrences isSwitch (blockNode body) + occurrences isValueCase (blockNode body)
            + occurrences isCommCase (blockNode body)
            + occurrences isLogicalOp (blockNode body)"
    using complexity_points [OF b] points_by_kind [of "walk (blockNode body)"]
    by (simp add: occurrences_def)
qed

theorem complexity_counts_decision_points_witness:
  "Body externalFunc = None
   \<and> calculateFunctionComplexity externalFunc = 1
   \<and> CalculateFunctionLoC (Some externalFunc) = 0
   \<and> Body exampleFunc = Some exampleBody
   \<and> occurrences isIf (blockNode exampleBody) = 1
   \<and> occurrences isLogicalOp (blockNode exampleBody) = 1
   \<and> calculateFunctionComplexity exampleFunc = 3"
  using complexity_counts_decision_points [of externalFunc]
    complexity_counts_decision_points [of exampleFunc]
  by (simp add: externalFunc_def exampleFunc_def exampleBody_def occurrences_def blockNode_def)

lemma plainNode_points: "plainNode t \<Longrightarrow> points (walk t) = 0"
  using points_by_kind [of "walk t"]
  by (simp add: plainNode_def list_all_iff filter_empty_conv)

lemma plainInit_points:
  "plainInit init \<Longrightarrow> points (case init of None \<Rightarrow> [] | Some n \<Rightarrow> walk n) = 0"
  by (cases init) (simp_all add: plainInit_def plainNode_points)

lemma withPlain_points:
  "withPlain ys b \<Longrightarrow> points (concat (map walk b)) = points (concat (map walk ys))"
  by (induction rule: withPlain.induct) (simp_all add: plainNode_points)

lemma newIf_points:
  "newIf init cond ys s \<Longrightarrow>
   points (walk s) =
     points (concat (map walk ys)) + 1
       + points (case init of None \<Rightarrow> [] | Some n \<Rightarrow> walk n) + points (walk cond)"
  by (induction rule: newIf.induct) (simp_all add: points_Cons withPlain_points)

lemma addIf_points:
  "addIf init cond n n' \<Longrightarrow>
   points (walk n') =
     points (walk n) + 1
       + points (case init of None \<Rightarrow> [] | Some n \<Rightarrow> walk n) + points (walk cond)"
proof (induction rule: addIf.induct)
  case (else_if_before body i c b e)
  show ?case
    using withPlain_points [OF else_if_before] by (simp add: points_Cons)
qed (simp_all add: points_Cons newIf_points)

text \<open>
  Claim C9 as stated asks only that the condition of the new if statement has no logical
  operator. Added to a function with an empty body, the statements
  \<open>if ok := a || b; ok { }\<close>, \<open>if func() bool { for { } }() { }\<close> and
  \<open>if ok { ok = a || b }\<close> have none in their conditions; each raises the complexity from
  1 to 3: the first by the operator of its init statement, the second by the loop of the
  function literal in its condition, the third by the operator in its body.
\<close>

theorem if_with_decision_outside_condition:
  "calculateFunctionComplexity (funcOfStmts []) = 1
   \<and> list_all (\<lambda>n. \<not> isLogicalOp n) (walk (Ident ''ok''))
   \<and> calculateFunctionComplexity
        (funcOfStmts [IfStmt (Some initWithOr) (Ident ''ok'') (OtherNode []) None]) = 3
   \<and> list_all (\<lambda>n. \<not> isLogicalOp n) (walk condWithLoop)
   \<and> calculateFunctionComplexity
        (funcOfStmts [IfStmt None condWithLoop (OtherNode []) None]) = 3
   \<and> calculateFunctionComplexity
        (funcOfStmts [IfStmt None (Ident ''ok'') (OtherNode [initWithOr]) None]) = 3"
  by (simp add: calculateFunctionComplexity_def funcOfStmts_def blockNode_def initWithOr_def
      condWithLoop_def)

text \<open>
  Claim C9 (amended). Adding to the body of a function one if statement that brings no
  logical operator and no other decision point with it, neither in its init statement nor
  in its condition nor in new statements of its body or else block, with everything else
  unchanged, raises the complexity of the function by exactly 1. The statement may have an
  init statement and an else block, it may stand in any statement list of the body or as
  an else-if branch of an if statement, and statements that were there before may become
  part of its body and else block.
\<close>

theorem adding_if_raises_complexity_by_one:
  assumes "plainInit init" and "plainNode cond"
    and "Body fd = Some body"
    and "addIf init cond (blockNode body) (OtherNode stmts')"
  shows "calculateFunctionComplexity (fd\<lparr>Body := Some (body\<lparr>Stmts := stmts'\<rparr>)\<rparr>)
         = calculateFunctionComplexity fd + 1"
proof -
  have new: "calculateFunctionComplexity (fd\<lparr>Body := Some (body\<lparr>Stmts := stmts'\<rparr>)\<rparr>)
             = 1 + points (walk (OtherNode stmts'))"
    using complexity_points [of "fd\<lparr>Body := Some (body\<lparr>Stmts := stmts'\<rparr>)\<rparr>"]
    by (simp add: blockNode_def)
  show ?thesis
    using complexity_points [OF assms(3)] new addIf_points [OF assms(4)]
      plainInit_points [OF assms(1)] plainNode_points [OF assms(2)]
    by simp
qed

theorem adding_if_raises_complexity_by_one_witness:
  "plainInit exampleInit
   \<and> plainNode exampleCond
   \<and> Body exampleFunc = Some exampleBody
   \<and> addIf exampleInit exampleCond (blockNode exampleBody)
        (OtherNode [IfStmt exampleInit exampleCond
                      (OtherNode (Stmts exampleBody @ [OtherNode []])) None])
   \<and> calculateFunctionComplexity exampleFunc = 3
   \<and> calculateFunctionComplexity
        (exampleFunc\<lparr>Body := Some (exampleBody\<lparr>Stmts :=
           [IfStmt exampleInit exampleCond
              (OtherNode (Stmts exampleBody @ [OtherNode []])) None]\<rparr>)\<rparr>) = 4"
proof -
  have i: "plainInit exampleInit"
    by (simp add: exampleInit_def plainInit_def plainNode_def)
  have p: "plainNode exampleCond"
    by (simp add: exampleCond_def plainNode_def)
  have b: "Body exampleFunc = Some exampleBody"
    by (simp add: exampleFunc_def)
  have a: "addIf exampleInit exampleCond (blockNode exampleBody)
             (OtherNode [IfStmt exampleInit exampleCond
                           (OtherNode (Stmts exampleBody @ [OtherNode []])) None])"
  proof -
    have "plainNode (OtherNode [])"
      by (simp add: plainNode_def)
    then have "withPlain [] [OtherNode []]"
      by (intro withPlain.new withPlain.none)
    then have "withPlain (Stmts exampleBody) (Stmts exampleBody @ [OtherNode []])"
      by (simp add: exampleBody_def withPlain.old)
    then have "newIf exampleInit exampleCond (Stmts exampleBody)
            (IfStmt exampleInit exampleCond
               (OtherNode (Stmts exampleBody @ [OtherNode []])) None)"
      by (rule no_else)
    from in_block [OF this, of "[]" "[]"] show ?thesis
      by (simp add: blockNode_def)
  qed
  have c: "calculateFunctionComplexity exampleFunc = 3"
    by (simp add: calculateFunctionComplexity_def exampleFunc_def exampleBody_def
        blockNode_def)
  show ?thesis
    using i p b a c adding_if_raises_complexity_by_one [OF i p b a] by simp
qed
section \<open>Cohesion of a struct without methods\<close>

text \<open>
  Claim C7. For a struct without methods the cohesion analyzer returns a result, not an
  error: the score 0 with an empty list of components.
\<close>

theorem no_methods_scores_zero:
  "extractMethods structName file (extractFields structType) = [] \<Longrightarrow>
   calculateStructLCOM4 structName structType file fileName =
     Some \<lparr>StructName = structName, StructResult.FilePath = fileName,
           LCOM4Score = 0, ComponentDetails = []\<rparr>"
  by (simp add: calculateStructLCOM4_def)

theorem no_methods_scores_zero_witness:
  "extractMethods ''Point'' fileWithoutMethods (extractFields plainStruct) = []
   \<and> calculateStructLCOM4 ''Point'' plainStruct fileWithoutMethods ''point.go'' =
       Some \<lparr>StructName = ''Point'', StructResult.FilePath = ''point.go'',
             LCOM4Score = 0, ComponentDetails = []\<rparr>"
proof -
  have h: "extractMethods ''Point'' fileWithoutMethods (extractFields plainStruct) = []"
    by (simp add: extractMethods_def fileWithoutMethods_def methodsOfDecl_def exampleFunc_def)
  show ?thesis
    using h no_methods_scores_zero [OF h, of "''point.go''"] by simp
qed

section \<open>The God Object rule\<close>

lemma godObjectsOfStructs_eq:
  "godObjectsOfStructs pkg ss results =
   results @ map (godObjectFinding pkg) (filter (\<lambda>s. LCOM4Score s \<ge> 5) ss)"
  by (induction ss arbitrary: results) simp_all

lemma godObjectsOfPackages_eq:
  "godObjectsOfPackages pkgs results =
   results @ map (\<lambda>ps. godObjectFinding (fst ps) (snd ps)) (filter isGodObject (structsOfRun pkgs))"
proof (induction pkgs arbitrary: results)
  case Nil
  show ?case by (simp add: structsOfRun_def)
next
  case (Cons pkg pkgs)
  have small: "filter isGodObject (map (Pair pkg) (Structs pkg)) = []"
    if "PackageResult.Afferent pkg < 10"
    using that by (simp add: isGodObject_def filter_empty_conv)
  have large: "map (\<lambda>ps. godObjectFinding (fst ps) (snd ps))
                 (filter isGodObject (map (Pair pkg) (Structs pkg)))
               = map (godObjectFinding pkg) (filter (\<lambda>s. LCOM4Score s \<ge> 5) (Structs pkg))"
    if "\<not> PackageResult.Afferent pkg < 10"
    using that by (simp add: isGodObject_def filter_map comp_def)
  show ?case
    using small large
    by (cases "PackageResult.Afferent pkg < 10")
      (simp_all add: Cons.IH structsOfRun_def godObjectsOfStructs_eq)
qed

text \<open>
  Claim C1. The God Object findings of a run are, in report order, one finding for each
  struct whose LCOM4 score is at least 5 in a package whose afferent coupling is at least
  10, and nothing else; each has severity Critical, and its evidence holds the LCOM4
  score of the struct and the afferent coupling of the package.
\<close>

theorem god_object_findings:
  "detectGodObjects packages =
     map (\<lambda>ps. godObjectFinding (fst ps) (snd ps)) (filter isGodObject (structsOfRun packages))
   \<and> Type (godObjectFinding pkg s) = ''God Object''
   \<and> Severity (godObjectFinding pkg s) = ''Critical''
   \<and> map_of (Evidence (godObjectFinding pkg s)) ''lcom4_score'' = Some (IntValue (LCOM4Score s))
   \<and> map_of (Evidence (godObjectFinding pkg s)) ''afferent''
       = Some (IntValue (PackageResult.Afferent pkg))"
  by (simp add: detectGodObjects_def godObjectsOfPackages_eq godObjectFinding_def)

theorem god_object_findings_witness:
  "detectGodObjects examplePackages =
     [godObjectFinding (packageWith ''store'' 12
          [structWithScore ''Manager'' 6, structWithScore ''Row'' 4])
        (structWithScore ''Manager'' 6)]
   \<and> map (\<lambda>d. (Type d, TargetName d, Severity d, map_of (Evidence d) ''lcom4_score'',
                 map_of (Evidence d) ''afferent''))
        (detectGodObjects examplePackages)
     = [(''God Object'', ''store.Manager'', ''Critical'', Some (IntValue 6),
         Some (IntValue 12))]"
  using god_object_findings [of examplePackages]
  by (simp add: examplePackages_def structsOfRun_def isGodObject_def packageWith_def
      structWithScore_def godObjectFinding_def)

section \<open>Instability\<close>

lemma countInternal_nonneg: "0 \<le> countInternal projectPrefix paths"
proof -
  have "c \<le> fold (\<lambda>p c. if prefix projectPrefix p then c + 1 else c) paths c" for c :: int
  proof (induction paths arbitrary: c)
    case Nil
    show ?case by simp
  next
    case (Cons p ps)
    show ?case
      using Cons [of "c + 1"] Cons [of c] by simp
  qed
  then show ?thesis
    unfolding countInternal_def by blast
qed

lemma ratio_bounds:
  assumes "rounding rnd" and "0 \<le> ce" and "0 \<le> ca" and "0 < ca + ce"
  shows "0 \<le> fdiv rnd (float64 rnd ce) (float64 rnd (ca + ce))"
    and "fdiv rnd (float64 rnd ce) (float64 rnd (ca + ce)) \<le> 1"
proof -
  have m: "mono rnd" and z: "rnd 0 = 0" and o: "rnd 1 = 1"
    using assms(1) by (simp_all add: rounding_def)
  have num0: "0 \<le> rnd (of_int ce)"
    using monoD [OF m, of 0 "of_int ce"] assms(2) z by simp
  have le: "rnd (of_int ce) \<le> rnd (of_int (ca + ce))"
    using monoD [OF m, of "of_int ce" "of_int (ca + ce)"] assms(3) by simp
  have den1: "1 \<le> rnd (of_int (ca + ce))"
    using monoD [OF m, of 1 "of_int (ca + ce)"] assms(4) o by simp
  have q0: "0 \<le> rnd (of_int ce) / rnd (of_int (ca + ce))"
    using num0 den1 by simp
  have q1: "rnd (of_int ce) / rnd (of_int (ca + ce)) \<le> 1"
    using le den1 by simp
  show "0 \<le> fdiv rnd (float64 rnd ce) (float64 rnd (ca + ce))"
    using monoD [OF m q0] z by (simp add: fdiv_def float64_def)
  show "fdiv rnd (float64 rnd ce) (float64 rnd (ca + ce)) \<le> 1"
    using monoD [OF m q1] o by (simp add: fdiv_def float64_def)
qed

lemma couplingOf_bounds:
  assumes "rounding rnd"
  shows "0 \<le> CouplingMetrics.Instability (couplingOf rnd projectPrefix dep)
    \<and> CouplingMetrics.Instability (couplingOf rnd projectPrefix dep) \<le> 1
    \<and> (CouplingMetrics.Afferent (couplingOf rnd projectPrefix dep)
         + CouplingMetrics.Efferent (couplingOf rnd projectPrefix dep) = 0
       \<longrightarrow> CouplingMetrics.Instability (couplingOf rnd projectPrefix dep) = 0)"
proof -
  have ce: "0 \<le> countInternal projectPrefix (PackageDependency.Imports dep)"
    and ca: "0 \<le> countInternal projectPrefix (ImportedBy dep)"
    by (rule countInternal_nonneg)+
  show ?thesis
    using ratio_bounds [OF assms ce ca] by (simp add: couplingOf_def Let_def)
qed

lemma set_update_subset: "set (AList.update k v al) \<subseteq> insert (k, v) (set al)"
  by (induction al) auto

lemma CalculateCoupling_values:
  "(p, m) \<in> set (fold (\<lambda>(pkgPath, dep) metrics.
             AList.update pkgPath (couplingOf rnd projectPrefix dep) metrics) pkgDeps acc)
   \<Longrightarrow> (p, m) \<in> set acc \<or> (\<exists>dep. m = couplingOf rnd projectPrefix dep)"
proof (induction pkgDeps arbitrary: acc)
  case Nil
  then show ?case by simp
next
  case (Cons kd pkgDeps)
  obtain k d where kd: "kd = (k, d)" by (cases kd)
  from Cons.prems Cons.IH [of "AList.update k (couplingOf rnd projectPrefix d) acc"]
  have "(p, m) \<in> set (AList.update k (couplingOf rnd projectPrefix d) acc)
        \<or> (\<exists>dep. m = couplingOf rnd projectPrefix dep)"
    by (simp add: kd)
  then show ?case
    using set_update_subset [of k "couplingOf rnd projectPrefix d" acc] by auto
qed

lemma bumpAfferent_ok: "list_all okResult fs \<Longrightarrow> list_all okResult (bumpAfferent n fs)"
  by (induction fs) (auto simp: okResult_def)

lemma countCall_ok: "list_all okResult fs \<Longrightarrow> list_all okResult (countCall l n fs)"
  by (cases n) (simp_all add: Let_def bumpAfferent_ok)

lemma fold_countCall_ok:
  "list_all okResult fs \<Longrightarrow> list_all okResult (fold (countCall l) ns fs)"
  by (induction ns arbitrary: fs) (simp_all add: countCall_ok)

lemma countCallsOfDecl_ok:
  "list_all okResult fs \<Longrightarrow> list_all okResult (countCallsOfDecl l fd fs)"
  by (simp add: countCallsOfDecl_def fold_countCall_ok split: option.split)

lemma fold_countCallsOfDecl_ok:
  "list_all okResult fs \<Longrightarrow> list_all okResult (fold (countCallsOfDecl l) ds fs)"
  by (induction ds arbitrary: fs) (simp_all add: countCallsOfDecl_ok)

lemma calculateAfferentCoupling_ok:
  assumes "list_all okResult fs"
  shows "list_all okResult (calculateAfferentCoupling fs files)"
proof -
  have "list_all okResult
          (fold (\<lambda>(fileName, file) fs. fold (countCallsOfDecl l) (Decls file) fs) files fs)"
    if "list_all okResult fs" for l fs
    using that
  proof (induction files arbitrary: fs)
    case Nil
    then show ?case by simp
  next
    case (Cons f files)
    then show ?case
      by (cases f) (simp add: fold_countCallsOfDecl_ok)
  qed
  then show ?thesis
    using assms by (simp add: calculateAfferentCoupling_def Let_def)
qed

lemma functionResultOf_ok: "okResult (functionResultOf projectPrefix imports fileName fd)"
  by (simp add: functionResultOf_def okResult_def Let_def split: prod.split)

lemma setInstability_bounds:
  assumes "rounding rnd" and "okResult r"
  shows "0 \<le> FunctionResult.Instability (setInstability rnd r)
    \<and> FunctionResult.Instability (setInstability rnd r) \<le> 1
    \<and> (FunctionResult.Afferent (setInstability rnd r)
         + FunctionResult.Efferent (setInstability rnd r) = 0
       \<longrightarrow> FunctionResult.Instability (setInstability rnd r) = 0)"
  using ratio_bounds [OF assms(1), of "FunctionResult.Efferent r" "FunctionResult.Afferent r"]
    assms(2)
  by (simp add: setInstability_def Let_def okResult_def)

lemma CalculateCoupling_bounds:
  assumes "rounding rnd" and "(p, m) \<in> set (CalculateCoupling rnd pkgDeps projectPrefix)"
  shows "0 \<le> CouplingMetrics.Instability m \<and> CouplingMetrics.Instability m \<le> 1
            \<and> (CouplingMetrics.Afferent m + CouplingMetrics.Efferent m = 0
                 \<longrightarrow> CouplingMetrics.Instability m = 0)"
proof -
  have "\<exists>dep. m = couplingOf rnd projectPrefix dep"
    using assms(2) CalculateCoupling_values [of p m rnd projectPrefix pkgDeps "[]"]
    by (simp add: CalculateCoupling_def)
  then show ?thesis
    using couplingOf_bounds [OF assms(1)] by auto
qed

lemma CalculateComplexity_bounds:
  assumes "rounding rnd" and r: "r \<in> set (CalculateComplexity rnd files projectPrefix)"
  shows "0 \<le> FunctionResult.Instability r \<and> FunctionResult.Instability r \<le> 1
            \<and> (FunctionResult.Afferent r + FunctionResult.Efferent r = 0
                 \<longrightarrow> FunctionResult.Instability r = 0)"
proof -
  have "list_all okResult (concat (map (\<lambda>(fileName, file).
              map (functionResultOf projectPrefix (buildFileImportMap file) fileName)
                  (Decls file)) files))"
    by (auto simp: list_all_iff functionResultOf_ok)
  then have "list_all okResult (calculateAfferentCoupling (concat (map (\<lambda>(fileName, file).
              map (functionResultOf projectPrefix (buildFileImportMap file) fileName)
                  (Decls file)) files)) files)"
    by (rule calculateAfferentCoupling_ok)
  then obtain r0 where "okResult r0" and "r = setInstability rnd r0"
    using r by (auto simp: CalculateComplexity_def Let_def list_all_iff)
  then show ?thesis
    using setInstability_bounds [OF assms(1)] by simp
qed

text \<open>
  Claim C6. The instability of every package and of every function lies between 0 and 1,
  and it is 0 when afferent and efferent coupling are both 0.
\<close>

theorem instability_between_zero_and_one:
  assumes "rounding rnd"
  shows "(\<forall>(p, m) \<in> set (CalculateCoupling rnd pkgDeps projectPrefix).
            0 \<le> CouplingMetrics.Instability m \<and> CouplingMetrics.Instability m \<le> 1
            \<and> (CouplingMetrics.Afferent m + CouplingMetrics.Efferent m = 0
                 \<longrightarrow> CouplingMetrics.Instability m = 0))
       \<and> (\<forall>r \<in> set (CalculateComplexity rnd files projectPrefix).
            0 \<le> FunctionResult.Instability r \<and> FunctionResult.Instability r \<le> 1
            \<and> (FunctionResult.Afferent r + FunctionResult.Efferent r = 0
                 \<longrightarrow> FunctionResult.Instability r = 0))"
  using CalculateCoupling_bounds [OF assms] CalculateComplexity_bounds [OF assms]
  by blast

lemma rounding_id: "rounding (\<lambda>x. x)"
  by (simp add: rounding_def mono_def)

theorem instability_between_zero_and_one_witness:
  "rounding (\<lambda>x. x)
   \<and> CalculateCoupling (\<lambda>x. x) examplePkgDeps ''proj'' =
       [(''a'', \<lparr>Afferent = 0, Efferent = 2, Instability = 1\<rparr>),
        (''b'', \<lparr>Afferent = 1, Efferent = 1, Instability = 1 / 2\<rparr>),
        (''c'', \<lparr>Afferent = 2, Efferent = 0, Instability = 0\<rparr>),
        (''d'', \<lparr>Afferent = 0, Efferent = 0, Instability = 0\<rparr>)]
   \<and> map (\<lambda>r. (FuncName r, FunctionResult.Afferent r, FunctionResult.Efferent r,
                 FunctionResult.Instability r))
        (CalculateComplexity (\<lambda>x. x) exampleFiles ''proj'')
       = [(''f'', 1, 0, 0), (''main'', 0, 1, 1)]"
proof -
  have a: "CalculateCoupling (\<lambda>x. x) examplePkgDeps ''proj'' =
       [(''a'', \<lparr>Afferent = 0, Efferent = 2, Instability = 1\<rparr>),
        (''b'', \<lparr>Afferent = 1, Efferent = 1, Instability = 1 / 2\<rparr>),
        (''c'', \<lparr>Afferent = 2, Efferent = 0, Instability = 0\<rparr>),
        (''d'', \<lparr>Afferent = 0, Efferent = 0, Instability = 0\<rparr>)]"
    by (simp add: CalculateCoupling_def examplePkgDeps_def couplingOf_def countInternal_def
        fdiv_def float64_def)
  have b: "map (\<lambda>r. (FuncName r, FunctionResult.Afferent r, FunctionResult.Efferent r,
                 FunctionResult.Instability r))
        (CalculateComplexity (\<lambda>x. x) exampleFiles ''proj'')
       = [(''f'', 1, 0, 0), (''main'', 0, 1, 1)]"
    by (simp add: CalculateComplexity_def exampleFiles_def exampleFunc_def callerFunc_def
        exampleBody_def functionResultOf_def buildFileImportMap_def trimQuotes_def
        lastPathElement_def extractFunctionDependencies_def blockNode_def
        CategorizeDependencies_def qualifiedName_def calculateAfferentCoupling_def
        countCallsOfDecl_def setInstability_def fdiv_def float64_def Let_def)
  show ?thesis
    using rounding_id a b
      instability_between_zero_and_one [OF rounding_id, of examplePkgDeps "''proj''" exampleFiles]
    by blast
qed

section \<open>The cluster-count estimate\<close>

text \<open>
  The matrices are rectangular: every row of the usage matrix has one entry for each
  field, centring keeps the shape, and the covariance matrix is square.
\<close>

lemma usage_matrix_rows:
  "row \<in> set (fst (buildWeightedUsageMatrix methods structFields)) \<Longrightarrow>
   length row = length structFields"
  by (auto simp: buildWeightedUsageMatrix_def)

lemma centerMatrix_rows:
  assumes "matrix \<noteq> []" and "row \<in> set (centerMatrix rnd matrix)"
  shows "length (centerMatrix rnd matrix) = length matrix \<and> length row = length (hd matrix)"
  using assms by (auto simp: centerMatrix_def Let_def)

lemma covariance_rows:
  assumes "matrix \<noteq> []" and "row \<in> set (computeCovarianceMatrix rnd matrix)"
  shows "length (computeCovarianceMatrix rnd matrix) = length (hd matrix)
         \<and> length row = length (hd matrix)"
  using assms by (auto simp: computeCovarianceMatrix_def Let_def)

text \<open>
  The elbow loop of \<open>estimateClusterCount\<close> counts the leading components above 10% among
  all components but the last, and at least 1.
\<close>

lemma elbowLoop_takeWhile:
  assumes "0 \<le> i" and "nat i \<le> length (butlast ev)"
    and "\<forall>j < nat i. ev ! j > rnd (1 / 10)"
  shows "elbowLoop rnd ev i (max 1 i)
         = max 1 (int (length (takeWhile (\<lambda>ratio. ratio > rnd (1 / 10)) (butlast ev))))"
  using assms
proof (induction "length (butlast ev) - nat i" arbitrary: i)
  case 0
  then have i: "nat i = length (butlast ev)"
    by simp
  then have stop: "\<not> i < int (length ev) - 1"
    using "0.prems"(1) by simp
  have "\<forall>x \<in> set (butlast ev). x > rnd (1 / 10)"
  proof
    fix x assume "x \<in> set (butlast ev)"
    then obtain j where j: "j < length (butlast ev)" "butlast ev ! j = x"
      by (auto simp: in_set_conv_nth)
    then have "ev ! j = x"
      by (simp add: nth_butlast)
    then show "x > rnd (1 / 10)"
      using "0.prems"(3) j(1) i by auto
  qed
  then have "takeWhile (\<lambda>ratio. ratio > rnd (1 / 10)) (butlast ev) = butlast ev"
    by (simp add: takeWhile_eq_all_conv)
  then have "int (length (takeWhile (\<lambda>ratio. ratio > rnd (1 / 10)) (butlast ev)))
             = int (nat i)"
    by (simp only: i)
  then have tw: "int (length (takeWhile (\<lambda>ratio. ratio > rnd (1 / 10)) (butlast ev))) = i"
    using "0.prems"(1) by simp
  have el: "elbowLoop rnd ev i (max 1 i) = max 1 i"
    using stop by (subst elbowLoop.simps) simp
  show ?case
    by (simp only: el tw)
next
  case (Suc d)
  then have lt: "nat i < length (butlast ev)"
    by simp
  then have go: "0 \<le> i \<and> i < int (length ev) - 1"
    using Suc.prems(1) by simp
  show ?case
  proof (cases "ev ! nat i > rnd (1 / 10)")
    case True
    have "\<forall>j < nat (i + 1). ev ! j > rnd (1 / 10)"
    proof (intro allI impI)
      fix j assume "j < nat (i + 1)"
      then have "j < nat i \<or> j = nat i"
        using Suc.prems(1) by auto
      then show "ev ! j > rnd (1 / 10)"
        using Suc.prems(3) True by auto
    qed
    moreover have "d = length (butlast ev) - nat (i + 1)"
      using Suc.hyps(2) Suc.prems(1) by simp
    moreover have "0 \<le> i + 1" "nat (i + 1) \<le> length (butlast ev)"
      using lt Suc.prems(1) by simp_all
    ultimately have ih: "elbowLoop rnd ev (i + 1) (max 1 (i + 1))
         = max 1 (int (length (takeWhile (\<lambda>ratio. ratio > rnd (1 / 10)) (butlast ev))))"
      using Suc.hyps(1) by blast
    have m: "max 1 (i + 1) = i + 1"
      using Suc.prems(1) by simp
    have el: "elbowLoop rnd ev i (max 1 i) = elbowLoop rnd ev (i + 1) (i + 1)"
      using go True by (subst elbowLoop.simps) simp
    show ?thesis
      using ih by (simp only: el m)
  next
    case False
    have "\<forall>j < nat i. butlast ev ! j > rnd (1 / 10)"
      using Suc.prems(3) lt by (simp add: nth_butlast)
    moreover have "\<not> butlast ev ! nat i > rnd (1 / 10)"
      using False lt by (simp add: nth_butlast)
    ultimately have "takeWhile (\<lambda>ratio. ratio > rnd (1 / 10)) (butlast ev)
                     = take (nat i) (butlast ev)"
      using lt by (intro takeWhile_eq_take_P_nth) auto
    then have "int (length (takeWhile (\<lambda>ratio. ratio > rnd (1 / 10)) (butlast ev)))
               = int (length (take (nat i) (butlast ev)))"
      by (simp only:)
    then have tw: "int (length (takeWhile (\<lambda>ratio. ratio > rnd (1 / 10)) (butlast ev))) = i"
      using lt Suc.prems(1) by simp
    have el: "elbowLoop rnd ev i (max 1 i) = max 1 i"
      using go False by (subst elbowLoop.simps) simp
    show ?thesis
      by (simp only: el tw)
  qed
qed

lemma elbowCount_takeWhile:
  "elbowCount rnd ev
   = max 1 (int (length (takeWhile (\<lambda>ratio. ratio > rnd (1 / 10)) (butlast ev))))"
  using elbowLoop_takeWhile [of 0 ev rnd] by (simp add: elbowCount_def)

lemma takeWhile_butlast:
  "\<not> list_all P xs \<Longrightarrow> takeWhile P (butlast xs) = takeWhile P xs"
  by (induction xs) auto

lemma estimateClusterCount_eq:
  assumes "length explainedVariance = length eigenvalues"
  shows "estimateClusterCount rnd eigenvalues explainedVariance =
     min 5 (max 1 (min (max (kaiserCount rnd eigenvalues) (elbowCount rnd explainedVariance))
                        (varianceCount rnd explainedVariance)))"
proof (cases "eigenvalues = []")
  case True
  then have "explainedVariance = []"
    using assms by simp
  then show ?thesis
    using True
    by (simp add: estimateClusterCount_def elbowCount_def varianceCount_def kaiserCount_def)
next
  case False
  then show ?thesis
    by (simp add: estimateClusterCount_def Let_def min_def max_def)
qed

text \<open>
  Apart from the last component the two elbow counts agree: the estimate of the code is
  that of the specification unless there are at least two components and every one of
  them explains more than 10%, and then the elbow count of the code is one less.
\<close>

lemma estimate_agrees:
  assumes len: "length explainedVariance = length eigenvalues"
    and some: "\<not> list_all (\<lambda>ratio. ratio > rnd (1 / 10)) explainedVariance
               \<or> length explainedVariance \<le> 1"
  shows "estimateClusterCount rnd eigenvalues explainedVariance
         = specClusterEstimate rnd eigenvalues explainedVariance"
proof -
  let ?P = "\<lambda>ratio. ratio > rnd (1 / 10)"
  let ?k = "int (length (takeWhile ?P explainedVariance))"
  have "elbowCount rnd explainedVariance = max 1 ?k"
  proof (cases "list_all ?P explainedVariance")
    case False
    then show ?thesis
      by (simp add: elbowCount_takeWhile takeWhile_butlast)
  next
    case True
    then have "length explainedVariance \<le> 1"
      using some by simp
    then have "explainedVariance = [] \<or> (\<exists>a. explainedVariance = [a])"
      by (cases explainedVariance) auto
    then show ?thesis
      using True by (auto simp: elbowCount_takeWhile)
  qed
  moreover have "min 5 (max 1 (min (max K (max 1 k)) V)) = min 5 (max 1 (min (max K k) V))"
    if "0 \<le> k" for K k V :: int
    using that by (simp add: min_def max_def)
  ultimately show ?thesis
    by (simp add: estimateClusterCount_eq [OF len] specClusterEstimate_def specElbowCount_def)
qed

lemma elbow_one_less:
  assumes "list_all (\<lambda>ratio. ratio > rnd (1 / 10)) explainedVariance"
    and "2 \<le> length explainedVariance"
  shows "elbowCount rnd explainedVariance = specElbowCount rnd explainedVariance - 1"
proof -
  have "list_all (\<lambda>ratio. ratio > rnd (1 / 10)) (butlast explainedVariance)"
    using assms(1) by (auto simp: list_all_iff dest: in_set_butlastD)
  then have "takeWhile (\<lambda>ratio. ratio > rnd (1 / 10)) (butlast explainedVariance)
             = butlast explainedVariance"
    by (simp add: takeWhile_eq_all_conv list_all_iff)
  then have b: "length (takeWhile (\<lambda>ratio. ratio > rnd (1 / 10)) (butlast explainedVariance))
                = length explainedVariance - 1"
    by (simp only: length_butlast)
  have "takeWhile (\<lambda>ratio. ratio > rnd (1 / 10)) explainedVariance = explainedVariance"
    using assms(1) by (simp add: takeWhile_eq_all_conv list_all_iff)
  then have a: "length (takeWhile (\<lambda>ratio. ratio > rnd (1 / 10)) explainedVariance)
                = length explainedVariance"
    by (simp only:)
  show ?thesis
    unfolding elbowCount_takeWhile specElbowCount_def a b using assms(2) by simp
qed

text \<open>
  An analysis with three components above 10%, evaluated in exact arithmetic (the rounding
  function is the identity). First the matrices and one round of the power iteration.
\<close>

lemma upt_three: "[0..<3] = [0, 1, 2]"
  by code_simp

lemma upt_Suc_three: "[0..<Suc (Suc (Suc 0))] = [0, 1, 2]"
  by code_simp

lemma upt_Suc_two: "[0..<Suc (Suc 0)] = [0, 1]"
  by code_simp

lemma matVec_three:
  "matVec (\<lambda>x. x) [[a, b, c], [d, e, f], [g, h, i]] [x, y, z] 3
   = [a * x + b * y + c * z, d * x + e * y + f * z, g * x + h * y + i * z]"
  unfolding matVec_def fadd_def fmul_def upt_three by simp

lemma dot_three: "dot (\<lambda>x. x) [a, b, c] [x, y, z] 3 = a * x + b * y + c * z"
  unfolding dot_def fadd_def fmul_def upt_three by simp

lemma deflateMatrix_three:
  "deflateMatrix (\<lambda>x. x) [[a, b, c], [d, e, f], [g, h, i]] ev
   = [[a - ev * (1 / 2), b, c], [d, e - ev * (1 / 2), f], [g, h, i - ev * (1 / 2)]]"
  unfolding deflateMatrix_def fsub_def fmul_def by (simp add: upt_Suc_three)

lemma example_covariance:
  "computeCovarianceMatrix (\<lambda>x. x)
     (centerMatrix (\<lambda>x. x) (map (map (float64 (\<lambda>x. x))) exampleMatrix))
   = exampleCovariance"
proof -
  have "centerMatrix (\<lambda>x. x) (map (map (float64 (\<lambda>x. x))) exampleMatrix)
        = [[- (1 / 2), - (1 / 2), 1 / 2], [1 / 2, 1 / 2, - (1 / 2)]]"
    unfolding centerMatrix_def fdiv_def fadd_def fsub_def float64_def Let_def exampleMatrix_def
    by (simp add: upt_Suc_three upt_Suc_two)
  moreover have "computeCovarianceMatrix (\<lambda>x. x)
        [[- (1 / 2), - (1 / 2), 1 / 2], [1 / 2, 1 / 2, - (1 / 2)]] = exampleCovariance"
    unfolding computeCovarianceMatrix_def fdiv_def fadd_def fmul_def float64_def Let_def
      exampleCovariance_def
    by (simp add: upt_Suc_three upt_Suc_two)
  ultimately show ?thesis
    by simp
qed

lemma example_deflations:
  "deflateMatrix (\<lambda>x. x) exampleCovariance (3 / 2) = deflatedOnce"
  "deflateMatrix (\<lambda>x. x) deflatedOnce (7 / 12) = deflatedTwice"
  by (simp_all add: exampleCovariance_def deflatedOnce_def deflatedTwice_def
      deflateMatrix_three)

text \<open>One round of the loop of \<open>powerIteration\<close> on a unit vector, in exact arithmetic.\<close>

lemma powerLoop_round:
  assumes unit: "x * x + y * y + z * z = 1"
    and nx: "nx = a * x + b * y + c * z"
    and ny: "ny = d * x + e * y + f * z"
    and nz: "nz = g * x + h * y + i * z"
    and norm: "nx * nx + ny * ny + nz * nz = n * n" and n: "1 / 10 ^ 10 \<le> n"
  shows "powerLoop (\<lambda>x. x) [[a, b, c], [d, e, f], [g, h, i]] 3 (Suc k) [x, y, z] ev
       = powerLoop (\<lambda>x. x) [[a, b, c], [d, e, f], [g, h, i]] 3 k [nx / n, ny / n, nz / n]
           (nx * x + ny * y + nz * z)"
proof -
  have "0 \<le> n"
    using n by (simp add: order_trans [of 0 "1 / 10 ^ 10" n])
  then have "sqrt (n * n) = n"
    by simp
  then show ?thesis
    using unit n
    by (simp add: matVec_three dot_three fdiv_def fsqrt_def Let_def nx [symmetric]
        ny [symmetric] nz [symmetric] norm)
qed

lemma startEntry_square: "startEntry * startEntry = 1 / 3"
  by (simp add: startEntry_def)

lemma startEntry_product: "a * startEntry * (b * startEntry) = a * b / 3"
proof -
  have "a * startEntry * (b * startEntry) = a * b * (startEntry * startEntry)"
    by simp
  then show ?thesis
    by (simp add: startEntry_square)
qed

lemma powerIteration_three:
  "powerIteration (\<lambda>x. x) [ra, rb, rc] m
   = \<bar>powerLoop (\<lambda>x. x) [ra, rb, rc] 3 m [startEntry, startEntry, startEntry] 0\<bar>"
proof -
  have len: "length [ra, rb, rc] = 3"
    by simp
  have v: "replicate 3 (fdiv (\<lambda>x. x) 1 (fsqrt (\<lambda>x. x) (float64 (\<lambda>x. x) (int 3))))
           = [startEntry, startEntry, startEntry]"
    by (simp add: fdiv_def fsqrt_def float64_def startEntry_def numeral_3_eq_3)
  show ?thesis
    unfolding powerIteration_def Let_def len v by simp
qed

text \<open>
  The first power iteration. After one round the vector is the eigenvector of the
  covariance matrix, which every further round leaves as it is, with quotient \<open>3/2\<close>.
\<close>

lemma first_start:
  "powerLoop (\<lambda>x. x) exampleCovariance 3 (Suc k) [startEntry, startEntry, startEntry] ev
   = powerLoop (\<lambda>x. x) exampleCovariance 3 k [startEntry, startEntry, - startEntry] (1 / 6)"
proof -
  have v: "[(1 / 2 * startEntry) / (1 / 2), (1 / 2 * startEntry) / (1 / 2),
            (- (1 / 2) * startEntry) / (1 / 2)] = [startEntry, startEntry, - startEntry]"
    by simp
  have e: "(1 / 2 * startEntry) * startEntry + (1 / 2 * startEntry) * startEntry
           + (- (1 / 2) * startEntry) * startEntry = 1 / 6"
    using startEntry_product [of "1 / 2" 1] startEntry_product [of "- (1 / 2)" 1] by simp
  have "powerLoop (\<lambda>x. x) exampleCovariance 3 (Suc k) [startEntry, startEntry, startEntry] ev
      = powerLoop (\<lambda>x. x) exampleCovariance 3 k
          [(1 / 2 * startEntry) / (1 / 2), (1 / 2 * startEntry) / (1 / 2),
           (- (1 / 2) * startEntry) / (1 / 2)]
          ((1 / 2 * startEntry) * startEntry + (1 / 2 * startEntry) * startEntry
           + (- (1 / 2) * startEntry) * startEntry)"
    unfolding exampleCovariance_def
    by (rule powerLoop_round) (simp_all add: startEntry_square)
  then show ?thesis
    by (simp only: v e)
qed

lemma first_round:
  "powerLoop (\<lambda>x. x) exampleCovariance 3 (Suc k) [startEntry, startEntry, - startEntry] ev
   = powerLoop (\<lambda>x. x) exampleCovariance 3 k [startEntry, startEntry, - startEntry] (3 / 2)"
proof -
  have v: "[(3 / 2 * startEntry) / (3 / 2), (3 / 2 * startEntry) / (3 / 2),
            (- (3 / 2) * startEntry) / (3 / 2)] = [startEntry, startEntry, - startEntry]"
    by simp
  have e: "(3 / 2 * startEntry) * startEntry + (3 / 2 * startEntry) * startEntry
           + (- (3 / 2) * startEntry) * (- startEntry) = 3 / 2"
    using startEntry_product [of "3 / 2" 1] startEntry_product [of "- (3 / 2)" "- 1"] by simp
  have "powerLoop (\<lambda>x. x) exampleCovariance 3 (Suc k) [startEntry, startEntry, - startEntry] ev
      = powerLoop (\<lambda>x. x) exampleCovariance 3 k
          [(3 / 2 * startEntry) / (3 / 2), (3 / 2 * startEntry) / (3 / 2),
           (- (3 / 2) * startEntry) / (3 / 2)]
          ((3 / 2 * startEntry) * startEntry + (3 / 2 * startEntry) * startEntry
           + (- (3 / 2) * startEntry) * (- startEntry))"
    unfolding exampleCovariance_def
    by (rule powerLoop_round) (simp_all add: startEntry_square)
  then show ?thesis
    by (simp only: v e)
qed

lemma first_fixed:
  "powerLoop (\<lambda>x. x) exampleCovariance 3 (Suc k) [startEntry, startEntry, - startEntry] ev
   = 3 / 2"
proof (induction k arbitrary: ev)
  case 0
  show ?case
    using first_round [of 0 ev] by simp
next
  case (Suc k)
  show ?case
    using first_round [of "Suc k" ev] Suc.IH [of "3 / 2"] by simp
qed

lemma first_eigenvalue: "powerIteration (\<lambda>x. x) exampleCovariance 100 = 3 / 2"
proof -
  have "powerLoop (\<lambda>x. x) exampleCovariance 3 (Suc (Suc 98))
          [startEntry, startEntry, startEntry] 0 = 3 / 2"
    using first_start [of "Suc 98" 0] first_fixed [of 98 "1 / 6"] by simp
  moreover have "Suc (Suc 98) = 100"
    by simp
  ultimately have "powerLoop (\<lambda>x. x) exampleCovariance 3 100
      [startEntry, startEntry, startEntry] 0 = 3 / 2"
    by simp
  then show ?thesis
    unfolding exampleCovariance_def powerIteration_three by simp
qed

text \<open>
  The second power iteration. The work matrix has the eigenvalues \<open>3/4\<close> and \<open>-3/4\<close>, the
  vector alternates between two vectors, and the quotient is \<open>-7/12\<close> in every round.
\<close>

lemma second_there:
  "powerLoop (\<lambda>x. x) deflatedOnce 3 (Suc k) [startEntry, startEntry, startEntry] ev
   = powerLoop (\<lambda>x. x) deflatedOnce 3 k
       [- (startEntry / 3), - (startEntry / 3), - (5 * startEntry / 3)] (- (7 / 12))"
proof -
  have v: "[(- (1 / 4) * startEntry) / (3 / 4), (- (1 / 4) * startEntry) / (3 / 4),
            (- (5 / 4) * startEntry) / (3 / 4)]
           = [- (startEntry / 3), - (startEntry / 3), - (5 * startEntry / 3)]"
    by simp
  have e: "(- (1 / 4) * startEntry) * startEntry + (- (1 / 4) * startEntry) * startEntry
           + (- (5 / 4) * startEntry) * startEntry = - (7 / 12)"
    using startEntry_product [of "- (1 / 4)" 1] startEntry_product [of "- (5 / 4)" 1] by simp
  have "powerLoop (\<lambda>x. x) deflatedOnce 3 (Suc k) [startEntry, startEntry, startEntry] ev
      = powerLoop (\<lambda>x. x) deflatedOnce 3 k
          [(- (1 / 4) * startEntry) / (3 / 4), (- (1 / 4) * startEntry) / (3 / 4),
           (- (5 / 4) * startEntry) / (3 / 4)]
          ((- (1 / 4) * startEntry) * startEntry + (- (1 / 4) * startEntry) * startEntry
           + (- (5 / 4) * startEntry) * startEntry)"
    unfolding deflatedOnce_def
    by (rule powerLoop_round) (simp_all add: startEntry_square)
  then show ?thesis
    by (simp only: v e)
qed

lemma second_back:
  "powerLoop (\<lambda>x. x) deflatedOnce 3 (Suc k)
     [- (startEntry / 3), - (startEntry / 3), - (5 * startEntry / 3)] ev
   = powerLoop (\<lambda>x. x) deflatedOnce 3 k [startEntry, startEntry, startEntry] (- (7 / 12))"
proof -
  have v: "[(3 / 4 * startEntry) / (3 / 4), (3 / 4 * startEntry) / (3 / 4),
            (3 / 4 * startEntry) / (3 / 4)] = [startEntry, startEntry, startEntry]"
    by simp
  have e: "(3 / 4 * startEntry) * (- (startEntry / 3))
           + (3 / 4 * startEntry) * (- (startEntry / 3))
           + (3 / 4 * startEntry) * (- (5 * startEntry / 3)) = - (7 / 12)"
    using startEntry_product [of "3 / 4" "- (1 / 3)"] startEntry_product [of "3 / 4" "- (5 / 3)"]
    by simp
  have "powerLoop (\<lambda>x. x) deflatedOnce 3 (Suc k)
          [- (startEntry / 3), - (startEntry / 3), - (5 * startEntry / 3)] ev
      = powerLoop (\<lambda>x. x) deflatedOnce 3 k
          [(3 / 4 * startEntry) / (3 / 4), (3 / 4 * startEntry) / (3 / 4),
           (3 / 4 * startEntry) / (3 / 4)]
          ((3 / 4 * startEntry) * (- (startEntry / 3))
           + (3 / 4 * startEntry) * (- (startEntry / 3))
           + (3 / 4 * startEntry) * (- (5 * startEntry / 3)))"
    unfolding deflatedOnce_def
    by (rule powerLoop_round) (simp_all add: startEntry_square)
  then show ?thesis
    by (simp only: v e)
qed

lemma second_alternates:
  "powerLoop (\<lambda>x. x) deflatedOnce 3 (Suc k) [startEntry, startEntry, startEntry] ev
     = - (7 / 12)
   \<and> powerLoop (\<lambda>x. x) deflatedOnce 3 (Suc k)
       [- (startEntry / 3), - (startEntry / 3), - (5 * startEntry / 3)] ev = - (7 / 12)"
proof (induction k arbitrary: ev)
  case 0
  show ?case
    using second_there [of 0 ev] second_back [of 0 ev] by simp
next
  case (Suc k)
  show ?case
    using second_there [of "Suc k" ev] second_back [of "Suc k" ev] Suc.IH [of "- (7 / 12)"]
    by simp
qed

lemma second_eigenvalue: "powerIteration (\<lambda>x. x) deflatedOnce 100 = 7 / 12"
proof -
  have "powerLoop (\<lambda>x. x) deflatedOnce 3 (Suc 99) [startEntry, startEntry, startEntry] 0
        = - (7 / 12)"
    using second_alternates [of 99 0] by simp
  moreover have "Suc 99 = 100"
    by simp
  ultimately have "powerLoop (\<lambda>x. x) deflatedOnce 3 100
      [startEntry, startEntry, startEntry] 0 = - (7 / 12)"
    by simp
  then show ?thesis
    unfolding deflatedOnce_def powerIteration_three by simp
qed

text \<open>
  The third power iteration. The work matrix has the eigenvalue \<open>11/24\<close> on the multiples of
  \<open>(1, 1, -1)\<close> and \<open>-25/24\<close> on the vectors orthogonal to them. In a vector \<open>(p, p, q)\<close> the
  first part is measured by \<open>2p - q\<close> and the second by \<open>p + q\<close>; a round multiplies the
  one by \<open>11/24\<close> and the other by \<open>-25/24\<close>, so the second part, which is the larger one
  from the start, stays so, and the quotient stays close to \<open>-25/24\<close>.
\<close>

lemma third_round:
  assumes unit: "p * p + p * p + q * q = 1"
    and inv: "c * ((2 * p - q) * (2 * p - q)) \<le> (p + q) * (p + q)"
  shows "\<exists>p' q'. powerLoop (\<lambda>x. x) deflatedTwice 3 (Suc k) [p, p, q] ev
                  = powerLoop (\<lambda>x. x) deflatedTwice 3 k [p', p', q']
                      (- (25 / 24) + (2 * p - q) * (2 * p - q) / 2)
           \<and> p' * p' + p' * p' + q' * q' = 1
           \<and> 625 / 121 * c * ((2 * p' - q') * (2 * p' - q')) \<le> (p' + q') * (p' + q')"
proof -
  define P where "P = - (13 / 24) * p + 1 / 2 * p + - (1 / 2) * q"
  define Q where "Q = - (1 / 2) * p + - (1 / 2) * p + - (13 / 24) * q"
  define N where "N = sqrt (P * P + P * P + Q * Q)"
  have "P * P + P * P + Q * Q
        = 121 / 576 * (p * p + p * p + q * q) + 7 / 12 * ((p + q) * (p + q))"
    by (simp add: P_def Q_def field_simps)
  then have n2: "P * P + P * P + Q * Q = 121 / 576 + 7 / 12 * ((p + q) * (p + q))"
    using unit by simp
  have "0 \<le> (p + q) * (p + q)"
    by simp
  then have low: "(11 / 24)\<^sup>2 \<le> P * P + P * P + Q * Q"
    using n2 by (simp add: power2_eq_square)
  then have n: "11 / 24 \<le> N"
    unfolding N_def by (rule real_le_rsqrt)
  then have npos: "0 < N"
    by simp
  have nn: "P * P + P * P + Q * Q = N * N"
    using low unfolding N_def by (simp add: order_trans [OF zero_le_power2])
  have round: "powerLoop (\<lambda>x. x) deflatedTwice 3 (Suc k) [p, p, q] ev
      = powerLoop (\<lambda>x. x) deflatedTwice 3 k [P / N, P / N, Q / N] (P * p + P * p + Q * q)"
    unfolding deflatedTwice_def
  proof (rule powerLoop_round [OF unit _ _ _ nn])
    show "1 / 10 ^ 10 \<le> N"
      using n by simp
  qed (simp_all add: P_def Q_def)
  have "P * p + P * p + Q * q
        = - (25 / 24) * (p * p + p * p + q * q) + (2 * p - q) * (2 * p - q) / 2"
    by (simp add: P_def Q_def field_simps)
  then have num: "P * p + P * p + Q * q = - (25 / 24) + (2 * p - q) * (2 * p - q) / 2"
    using unit by simp
  have "P / N * (P / N) + P / N * (P / N) + Q / N * (Q / N)
        = (P * P + P * P + Q * Q) / (N * N)"
    by (simp add: add_divide_distrib)
  then have unit': "P / N * (P / N) + P / N * (P / N) + Q / N * (Q / N) = 1"
    using nn npos by simp
  have s: "P / N + Q / N = - (25 / 24) * (p + q) / N"
    using npos by (simp add: P_def Q_def field_simps)
  have d: "2 * (P / N) - Q / N = 11 / 24 * (2 * p - q) / N"
    using npos by (simp add: P_def Q_def field_simps)
  have "625 / 121 * c * ((2 * (P / N) - Q / N) * (2 * (P / N) - Q / N))
        = 625 / 576 * (c * ((2 * p - q) * (2 * p - q))) / (N * N)"
    unfolding d using npos by (simp add: field_simps)
  also have "\<dots> \<le> 625 / 576 * ((p + q) * (p + q)) / (N * N)"
    using inv npos by (simp add: divide_right_mono)
  also have "\<dots> = (P / N + Q / N) * (P / N + Q / N)"
    unfolding s using npos by (simp add: field_simps)
  finally have inv': "625 / 121 * c * ((2 * (P / N) - Q / N) * (2 * (P / N) - Q / N))
        \<le> (P / N + Q / N) * (P / N + Q / N)" .
  show ?thesis
    using round unit' inv' unfolding num by blast
qed

lemma quotient_bounds:
  fixes p q :: real
  assumes unit: "p * p + p * p + q * q = 1"
    and inv: "18 * ((2 * p - q) * (2 * p - q)) \<le> (p + q) * (p + q)"
  shows "- (25 / 24) \<le> - (25 / 24) + (2 * p - q) * (2 * p - q) / 2"
    and "- (25 / 24) + (2 * p - q) * (2 * p - q) / 2 \<le> - (889 / 888)"
proof -
  show "- (25 / 24) \<le> - (25 / 24) + (2 * p - q) * (2 * p - q) / 2"
    by simp
  have "(2 * p - q) * (2 * p - q) + 2 * ((p + q) * (p + q)) = 3 * (p * p + p * p + q * q)"
    by (simp add: algebra_simps)
  then have "(2 * p - q) * (2 * p - q) + 2 * ((p + q) * (p + q)) = 3"
    using unit by simp
  then have "37 * ((2 * p - q) * (2 * p - q)) \<le> 3"
    using inv by simp
  then show "- (25 / 24) + (2 * p - q) * (2 * p - q) / 2 \<le> - (889 / 888)"
    by simp
qed

lemma third_bounds:
  assumes "p * p + p * p + q * q = 1"
    and "18 * ((2 * p - q) * (2 * p - q)) \<le> (p + q) * (p + q)"
  shows "- (25 / 24) \<le> powerLoop (\<lambda>x. x) deflatedTwice 3 (Suc k) [p, p, q] ev
         \<and> powerLoop (\<lambda>x. x) deflatedTwice 3 (Suc k) [p, p, q] ev \<le> - (889 / 888)"
  using assms
proof (induction k arbitrary: p q ev)
  case 0
  obtain p' q' where "powerLoop (\<lambda>x. x) deflatedTwice 3 (Suc 0) [p, p, q] ev
        = powerLoop (\<lambda>x. x) deflatedTwice 3 0 [p', p', q']
            (- (25 / 24) + (2 * p - q) * (2 * p - q) / 2)"
    using third_round [OF "0.prems", of 0 ev] by blast
  then show ?case
    using quotient_bounds [OF "0.prems"] by simp
next
  case (Suc k)
  obtain p' q' where r: "powerLoop (\<lambda>x. x) deflatedTwice 3 (Suc (Suc k)) [p, p, q] ev
        = powerLoop (\<lambda>x. x) deflatedTwice 3 (Suc k) [p', p', q']
            (- (25 / 24) + (2 * p - q) * (2 * p - q) / 2)"
    and u: "p' * p' + p' * p' + q' * q' = 1"
    and i: "625 / 121 * 18 * ((2 * p' - q') * (2 * p' - q')) \<le> (p' + q') * (p' + q')"
    using third_round [OF Suc.prems, of "Suc k" ev] by blast
  have "0 \<le> (2 * p' - q') * (2 * p' - q')"
    by simp
  then have "18 * ((2 * p' - q') * (2 * p' - q'))
             \<le> 625 / 121 * 18 * ((2 * p' - q') * (2 * p' - q'))"
    by simp
  then have "18 * ((2 * p' - q') * (2 * p' - q')) \<le> (p' + q') * (p' + q')"
    using i by (rule order_trans)
  from Suc.IH [OF u this] show ?case
    unfolding r .
qed

lemma third_eigenvalue:
  "889 / 888 \<le> powerIteration (\<lambda>x. x) deflatedTwice 100
   \<and> powerIteration (\<lambda>x. x) deflatedTwice 100 \<le> 25 / 24"
proof -
  have unit: "startEntry * startEntry + startEntry * startEntry + startEntry * startEntry = 1"
    by (simp add: startEntry_square)
  have inv: "4 * ((2 * startEntry - startEntry) * (2 * startEntry - startEntry))
             \<le> (startEntry + startEntry) * (startEntry + startEntry)"
    by (simp add: startEntry_square)
  obtain p' q' where r: "powerLoop (\<lambda>x. x) deflatedTwice 3 (Suc (Suc 98))
          [startEntry, startEntry, startEntry] 0
        = powerLoop (\<lambda>x. x) deflatedTwice 3 (Suc 98) [p', p', q']
            (- (25 / 24) + (2 * startEntry - startEntry) * (2 * startEntry - startEntry) / 2)"
    and u: "p' * p' + p' * p' + q' * q' = 1"
    and i: "625 / 121 * 4 * ((2 * p' - q') * (2 * p' - q')) \<le> (p' + q') * (p' + q')"
    using third_round [OF unit inv, of "Suc 98" 0] by blast
  have "0 \<le> (2 * p' - q') * (2 * p' - q')"
    by simp
  then have "18 * ((2 * p' - q') * (2 * p' - q'))
             \<le> 625 / 121 * 4 * ((2 * p' - q') * (2 * p' - q'))"
    by simp
  then have "18 * ((2 * p' - q') * (2 * p' - q')) \<le> (p' + q') * (p' + q')"
    using i by (rule order_trans)
  from third_bounds [OF u this, of 98]
  have "- (25 / 24) \<le> powerLoop (\<lambda>x. x) deflatedTwice 3 (Suc (Suc 98))
            [startEntry, startEntry, startEntry] 0
      \<and> powerLoop (\<lambda>x. x) deflatedTwice 3 (Suc (Suc 98))
            [startEntry, startEntry, startEntry] 0 \<le> - (889 / 888)"
    unfolding r .
  moreover have "Suc (Suc 98) = 100"
    by simp
  ultimately have "- (25 / 24) \<le> powerLoop (\<lambda>x. x) deflatedTwice 3 100
            [startEntry, startEntry, startEntry] 0
      \<and> powerLoop (\<lambda>x. x) deflatedTwice 3 100
            [startEntry, startEntry, startEntry] 0 \<le> - (889 / 888)"
    by simp
  then show ?thesis
    unfolding deflatedTwice_def powerIteration_three by simp
qed

lemma example_eigenvalues:
  "eigenvaluesOf (\<lambda>x. x) exampleMatrix
   = [3 / 2, 7 / 12, powerIteration (\<lambda>x. x) deflatedTwice 100]"
proof -
  have len: "length exampleCovariance = 3"
    by (simp add: exampleCovariance_def)
  have third: "\<not> powerIteration (\<lambda>x. x) deflatedTwice 100 \<le> 1 / 10 ^ 10"
    using third_eigenvalue by simp
  have "eigenLoop (\<lambda>x. x) (Suc (Suc (Suc 0))) exampleCovariance
        = [3 / 2, 7 / 12, powerIteration (\<lambda>x. x) deflatedTwice 100]"
    using third by (simp add: first_eigenvalue second_eigenvalue example_deflations Let_def)
  then have "computeTopEigenvalues (\<lambda>x. x) exampleCovariance 5
        = [3 / 2, 7 / 12, powerIteration (\<lambda>x. x) deflatedTwice 100]"
    by (simp add: computeTopEigenvalues_def len numeral_3_eq_3)
  then show ?thesis
    by (simp add: eigenvaluesOf_def example_covariance Let_def)
qed

text \<open>The counts for three components of which each explains more than 10%.\<close>

lemma elbowCount_three:
  assumes "1 / 10 < a" and "1 / 10 < b"
  shows "elbowCount (\<lambda>x. x) [a, b, c] = 2"
proof -
  have "elbowLoop (\<lambda>x. x) [a, b, c] 2 2 = 2"
    by (subst elbowLoop.simps) simp
  moreover have "elbowLoop (\<lambda>x. x) [a, b, c] 1 1 = elbowLoop (\<lambda>x. x) [a, b, c] 2 2"
    using assms(2) by (subst elbowLoop.simps) simp
  moreover have "elbowLoop (\<lambda>x. x) [a, b, c] 0 1 = elbowLoop (\<lambda>x. x) [a, b, c] 1 1"
    using assms(1) by (subst elbowLoop.simps) simp
  ultimately show ?thesis
    by (simp add: elbowCount_def)
qed

lemma specElbowCount_three:
  assumes "1 / 10 < a" and "1 / 10 < b" and "1 / 10 < c"
  shows "specElbowCount (\<lambda>x. x) [a, b, c] = 3"
  using assms by (simp add: specElbowCount_def)

lemma varianceCount_three:
  assumes "a < 8 / 10" and "a + b < 8 / 10"
  shows "varianceCount (\<lambda>x. x) [a, b, c] = 3"
  using assms by (simp add: varianceCount_def fadd_def Let_def)

lemma example_counts:
  assumes low: "889 / 888 \<le> e" and high: "e \<le> 25 / 24"
  shows "kaiserCount (\<lambda>x. x) [3 / 2, 7 / 12, e] = 2"
    and "elbowCount (\<lambda>x. x) (explainedVarianceOf (\<lambda>x. x) [3 / 2, 7 / 12, e]) = 2"
    and "specElbowCount (\<lambda>x. x) (explainedVarianceOf (\<lambda>x. x) [3 / 2, 7 / 12, e]) = 3"
    and "varianceCount (\<lambda>x. x) (explainedVarianceOf (\<lambda>x. x) [3 / 2, 7 / 12, e]) = 3"
proof -
  define t where "t = 25 / 12 + e"
  have t: "3 < t" "t < 10 / 3" "t < 10 * e"
    using low high by (simp_all add: t_def)
  have xv: "explainedVarianceOf (\<lambda>x. x) [3 / 2, 7 / 12, e] = [3 / 2 / t, 7 / 12 / t, e / t]"
    using low by (simp add: explainedVarianceOf_def fadd_def fdiv_def t_def Let_def)
  have a: "1 / 10 < 3 / 2 / t" "3 / 2 / t < 8 / 10"
    using t by (simp_all add: field_simps)
  have "3 / 2 / t + 7 / 12 / t = 25 / 12 / t"
    by (simp add: add_divide_distrib [symmetric])
  moreover have "25 / 12 / t < 8 / 10"
    using t by (simp add: field_simps)
  ultimately have b: "1 / 10 < 7 / 12 / t" "3 / 2 / t + 7 / 12 / t < 8 / 10"
    using t by (simp_all add: field_simps)
  have c: "1 / 10 < e / t"
    using t by (simp add: field_simps)
  show "kaiserCount (\<lambda>x. x) [3 / 2, 7 / 12, e] = 2"
    using low by (simp add: kaiserCount_def)
  show "elbowCount (\<lambda>x. x) (explainedVarianceOf (\<lambda>x. x) [3 / 2, 7 / 12, e]) = 2"
    unfolding xv using a(1) b(1) by (rule elbowCount_three)
  show "specElbowCount (\<lambda>x. x) (explainedVarianceOf (\<lambda>x. x) [3 / 2, 7 / 12, e]) = 3"
    unfolding xv using a(1) b(1) c by (rule specElbowCount_three)
  show "varianceCount (\<lambda>x. x) (explainedVarianceOf (\<lambda>x. x) [3 / 2, 7 / 12, e]) = 3"
    unfolding xv using a(2) b(2) by (rule varianceCount_three)
qed

lemma example_estimates:
  assumes low: "889 / 888 \<le> e" and high: "e \<le> 25 / 24"
  shows "estimateClusterCount (\<lambda>x. x) [3 / 2, 7 / 12, e]
           (explainedVarianceOf (\<lambda>x. x) [3 / 2, 7 / 12, e]) = 2"
    and "specClusterEstimate (\<lambda>x. x) [3 / 2, 7 / 12, e]
           (explainedVarianceOf (\<lambda>x. x) [3 / 2, 7 / 12, e]) = 3"
  using example_counts [OF assms]
  by (simp_all add: estimateClusterCount_def specClusterEstimate_def Let_def)

text \<open>
  Claim C8, at an input where the code departs from it. For the struct of \<open>exampleUsage\<close>
  the usage matrix has the rows \<open>(0, 0, 1)\<close> and \<open>(1, 1, 0)\<close>, and the analysis, run in
  exact arithmetic, finds three eigenvalues: \<open>3/2\<close>, \<open>7/12\<close> and one between \<open>889/888\<close>
  and \<open>25/24\<close>. Two of them exceed 1, each of the three components explains more than 10%
  of the variance, and the cumulative variance reaches 80% only with the third, so the
  estimate of the claim is \<open>min (max 2 3) 3 = 3\<close>. The loop of the elbow count stops before
  the last component and counts 2, and \<open>AnalyzeFieldMatrix\<close> reports 2 clusters.
\<close>

theorem elbow_count_leaves_out_last_component:
  "buildWeightedUsageMatrix exampleUsage [''path'', ''data'', ''out'']
     = (exampleMatrix, [''render'', ''load''])
   \<and> length (eigenvaluesOf (\<lambda>x. x) exampleMatrix) = 3
   \<and> eigenvaluesOf (\<lambda>x. x) exampleMatrix ! 0 = 3 / 2
   \<and> eigenvaluesOf (\<lambda>x. x) exampleMatrix ! 1 = 7 / 12
   \<and> 889 / 888 \<le> eigenvaluesOf (\<lambda>x. x) exampleMatrix ! 2
   \<and> eigenvaluesOf (\<lambda>x. x) exampleMatrix ! 2 \<le> 25 / 24
   \<and> kaiserCount (\<lambda>x. x) (eigenvaluesOf (\<lambda>x. x) exampleMatrix) = 2
   \<and> specElbowCount (\<lambda>x. x)
         (explainedVarianceOf (\<lambda>x. x) (eigenvaluesOf (\<lambda>x. x) exampleMatrix)) = 3
   \<and> varianceCount (\<lambda>x. x)
         (explainedVarianceOf (\<lambda>x. x) (eigenvaluesOf (\<lambda>x. x) exampleMatrix)) = 3
   \<and> specClusterEstimate (\<lambda>x. x) (eigenvaluesOf (\<lambda>x. x) exampleMatrix)
         (explainedVarianceOf (\<lambda>x. x) (eigenvaluesOf (\<lambda>x. x) exampleMatrix)) = 3
   \<and> elbowCount (\<lambda>x. x)
         (explainedVarianceOf (\<lambda>x. x) (eigenvaluesOf (\<lambda>x. x) exampleMatrix)) = 2
   \<and> fst (estimateClustersViaPCA (\<lambda>x. x) exampleMatrix) = 2
   \<and> map_option EstimatedClusters exampleAnalysis = Some 2"
proof -
  define e where "e = powerIteration (\<lambda>x. x) deflatedTwice 100"
  have e: "889 / 888 \<le> e" "e \<le> 25 / 24"
    using third_eigenvalue by (simp_all add: e_def)
  have evs: "eigenvaluesOf (\<lambda>x. x) exampleMatrix = [3 / 2, 7 / 12, e]"
    by (simp add: example_eigenvalues e_def)
  have m: "buildWeightedUsageMatrix exampleUsage [''path'', ''data'', ''out'']
     = (exampleMatrix, [''render'', ''load''])"
    by (simp add: buildWeightedUsageMatrix_def exampleUsage_def exampleMatrix_def usageOf_def)
  have pca: "fst (estimateClustersViaPCA (\<lambda>x. x) exampleMatrix) = 2"
    using example_estimates(1) [OF e] by (simp add: estimateClustersViaPCA_def evs Let_def)
  have len: "length exampleMatrix = 2" "length (hd exampleMatrix) = 3" "length exampleUsage = 2"
    by (simp_all add: exampleMatrix_def exampleUsage_def)
  obtain xv where "estimateClustersViaPCA (\<lambda>x. x) exampleMatrix = (2, xv)"
    using pca by (cases "estimateClustersViaPCA (\<lambda>x. x) exampleMatrix") simp
  then have "map_option EstimatedClusters exampleAnalysis = Some 2"
    using len by (simp add: exampleAnalysis_def AnalyzeFieldMatrix_def m Let_def)
  then show ?thesis
    using m pca example_counts [OF e] example_estimates(2) [OF e] e
    by (simp add: evs)
qed
section \<open>Dependency depth\<close>

text \<open>
  Claim C3. The depth of a package is the length of its longest chain of in-project
  imports, 0 for a package without in-project imports. The code gives the chain
  \<open>a \<rightarrow> b \<rightarrow> c\<close> the depths 2, 1, 0; but a package whose only import is the standard
  library has no in-project import and gets depth 1, and the package that imports it
  gets 2.
\<close>

theorem external_import_counts_as_depth:
  "CalculateDependencyDepth leafWithExternalImport ''proj'' = Some [(''leaf'', 1), (''top'', 2)]"
  unfolding leafWithExternalImport_def by code_simp

lemma chain_of_three_depths:
  "CalculateDependencyDepth chainOfThree ''proj'' = Some [(''c'', 0), (''b'', 1), (''a'', 2)]"
  unfolding chainOfThree_def by code_simp

section \<open>Method clustering\<close>

text \<open>
  Claim C4. Components smaller than \<open>max(2, round(totalMethods * 0.2))\<close> are dropped unless
  there is only one component. With fifteen methods that threshold is 3, and the code
  still reports the component of the two methods \<open>n\<close> and \<open>o\<close>: its threshold is 2 for
  every number of methods.
\<close>

theorem small_cluster_is_kept:
  "findMethodClusters rnd (buildPrivateMethodCallGraph fifteenMethods fifteenMethods)
     fifteenMethods =
     Some [\<lparr>ID = 1,
            Methods = [''S.a'', ''S.b'', ''S.c'', ''S.d'', ''S.e'', ''S.f'', ''S.g'', ''S.h'',
                       ''S.i'', ''S.j'', ''S.k'', ''S.l'', ''S.m''],
            Size = 13, CalledBy = [], ResponsibilityHint = []\<rparr>,
           \<lparr>ID = 2, Methods = [''S.n'', ''S.o''], Size = 2, CalledBy = [],
            ResponsibilityHint = []\<rparr>]
   \<and> specMinClusterSize 15 = 3"
proof -
  have "specMinClusterSize 15 = 3"
    by (simp add: specMinClusterSize_def round_def)
  moreover have "findMethodClusters rnd
      (buildPrivateMethodCallGraph fifteenMethods fifteenMethods) fifteenMethods =
     Some [\<lparr>ID = 1,
            Methods = [''S.a'', ''S.b'', ''S.c'', ''S.d'', ''S.e'', ''S.f'', ''S.g'', ''S.h'',
                       ''S.i'', ''S.j'', ''S.k'', ''S.l'', ''S.m''],
            Size = 13, CalledBy = [], ResponsibilityHint = []\<rparr>,
           \<lparr>ID = 2, Methods = [''S.n'', ''S.o''], Size = 2, CalledBy = [],
            ResponsibilityHint = []\<rparr>]"
    unfolding findMethodClusters_def Let_def by code_simp
  ultimately show ?thesis
    by simp
qed

section \<open>Union-find and the cohesion analyzer\<close>

subsection \<open>Roots\<close>

lemma rootOf_unique: "rootOf p x r \<Longrightarrow> rootOf p x r' \<Longrightarrow> r = r'"
proof (induction arbitrary: r' rule: rootOf.induct)
  case (root x)
  then show ?case by (auto elim: rootOf.cases)
next
  case (step x r)
  from step.prems step.hyps(1) have "rootOf p (p x) r'"
    by (auto elim: rootOf.cases)
  then show ?case using step.IH by blast
qed

lemma rootOf_fixed: "rootOf p x r \<Longrightarrow> p r = r"
  by (induction rule: rootOf.induct) auto

lemma rootOf_of_root: "rootOf p x r \<Longrightarrow> p x = x \<Longrightarrow> r = x"
  by (auto elim: rootOf.cases)

lemma rootOf_compress:
  assumes "rootOf p x r" and "rootOf p y s"
  shows "rootOf (p(x := r)) y s"
proof -
  define q where "q = p(x := r)"
  have q: "q z = (if z = x then r else p z)" for z
    by (simp add: q_def)
  have "rootOf q y s"
    using assms(2)
  proof (induction rule: rootOf.induct)
    case (root y)
    show ?case
    proof (cases "y = x")
      case True
      then have "r = x"
        using assms(1) root rootOf_of_root by blast
      then have "q y = y"
        using True by (simp add: q)
      then show ?thesis
        by (rule rootOf.root)
    next
      case False
      then have "q y = y"
        using root by (simp add: q)
      then show ?thesis
        by (rule rootOf.root)
    qed
  next
    case (step y s)
    show ?case
    proof (cases "y = x")
      case True
      have "rootOf p y s"
        using step.hyps by (rule rootOf.step)
      then have sr: "s = r"
        using assms(1) True rootOf_unique by blast
      have fr: "p r = r"
        using assms(1) by (rule rootOf_fixed)
      have rx: "r \<noteq> x"
        using fr step.hyps(1) True by auto
      have "q r = r"
        using fr rx by (simp add: q)
      then have "rootOf q r r"
        by (rule rootOf.root)
      moreover have "q x = r"
        by (simp add: q)
      ultimately have "rootOf q x r"
        using rootOf.step [of q x r] rx by simp
      then show ?thesis
        using True sr by simp
    next
      case False
      then have "q y = p y"
        by (simp add: q)
      then show ?thesis
        using step rootOf.step [of q y s] by simp
    qed
  qed
  then show ?thesis
    by (simp add: q_def)
qed

lemma rootOf_link:
  assumes "p r1 = r1" and "p r2 = r2" and "r1 \<noteq> r2" and "rootOf p y s"
  shows "rootOf (p(r1 := r2)) y (if s = r1 then r2 else s)"
proof -
  define q where "q = p(r1 := r2)"
  have q: "q z = (if z = r1 then r2 else p z)" for z
    by (simp add: q_def)
  have "rootOf q y (if s = r1 then r2 else s)"
    using assms(4)
  proof (induction rule: rootOf.induct)
    case (root y)
    show ?case
    proof (cases "y = r1")
      case True
      have "q r2 = r2"
        using assms by (simp add: q)
      then have "rootOf q r2 r2"
        by (rule rootOf.root)
      moreover have "q r1 = r2"
        by (simp add: q)
      ultimately have "rootOf q r1 r2"
        using rootOf.step [of q r1 r2] assms(3) by simp
      then show ?thesis
        using True by simp
    next
      case False
      then have "q y = y"
        using root by (simp add: q)
      then have "rootOf q y y"
        by (rule rootOf.root)
      then show ?thesis
        using False by simp
    qed
  next
    case (step y s)
    then have "y \<noteq> r1"
      using assms(1) by auto
    then have "q y = p y"
      by (simp add: q)
    then show ?case
      using step rootOf.step [of q y "if s = r1 then r2 else s"] by simp
  qed
  then show ?thesis
    by (simp add: q_def)
qed

subsection \<open>The maps of the structure\<close>

lemma parentOf_update [simp]:
  "parentOf (uf\<lparr>parent := AList.update k v (parent uf)\<rparr>) = (parentOf uf)(k := v)"
  by (rule ext) (simp add: parentOf_def update_conv')

lemma rankOf_parent_update [simp]: "rankOf (uf\<lparr>parent := al\<rparr>) = rankOf uf"
  by (rule ext) (simp add: rankOf_def)

lemma parentOf_rank_update [simp]: "parentOf (uf\<lparr>rank := al\<rparr>) = parentOf uf"
  by (rule ext) (simp add: parentOf_def)

lemma rankOf_update [simp]:
  "rankOf (uf\<lparr>rank := AList.update k v (rank uf)\<rparr>) = (rankOf uf)(k := v)"
  by (rule ext) (simp add: rankOf_def update_conv')

lemma ufKeys_parent_update [simp]:
  "ufKeys (uf\<lparr>parent := AList.update k v (parent uf)\<rparr>) = insert k (ufKeys uf)"
  by (simp add: ufKeys_def dom_update)

lemma ufKeys_rank_update [simp]: "ufKeys (uf\<lparr>rank := al\<rparr>) = ufKeys uf"
  by (simp add: ufKeys_def)

lemma keys_update_same:
  "k \<in> ufKeys uf \<Longrightarrow> map fst (AList.update k v (parent uf)) = map fst (parent uf)"
  by (simp add: update_keys ufKeys_def)

lemma ufKeys_map_fst: "map fst (parent uf') = map fst (parent uf) \<Longrightarrow> ufKeys uf' = ufKeys uf"
  by (metis ufKeys_def set_map)

lemma ufKeys_iff: "x \<in> ufKeys uf \<longleftrightarrow> map_of (parent uf) x \<noteq> None"
  by (simp add: ufKeys_def map_of_eq_None_iff)

subsection \<open>Roots under the invariant\<close>

lemma rootOf_in_keys:
  assumes "ufInv uf"
  shows "rootOf (parentOf uf) x r \<Longrightarrow> x \<in> ufKeys uf \<Longrightarrow>
         r \<in> ufKeys uf \<and> rankOf uf x \<le> rankOf uf r \<and> (x \<noteq> r \<longrightarrow> rankOf uf x < rankOf uf r)"
proof (induction rule: rootOf.induct)
  case (root x)
  then show ?case by simp
next
  case (step x r)
  have "parentOf uf x \<in> ufKeys uf" and "rankOf uf x < rankOf uf (parentOf uf x)"
    using assms step.prems step.hyps(1) by (auto simp: ufInv_def)
  then show ?case using step.IH by auto
qed

lemma rank_bound: "\<exists>B. \<forall>y \<in> ufKeys uf. rankOf uf y \<le> B"
proof -
  have "finite (rankOf uf ` ufKeys uf)" by (simp add: ufKeys_def)
  then show ?thesis
    by (metis Max_ge imageI)
qed

lemma rootOf_exists:
  assumes inv: "ufInv uf" and x: "x \<in> ufKeys uf"
  shows "\<exists>r. rootOf (parentOf uf) x r"
proof -
  obtain B where B: "\<forall>y \<in> ufKeys uf. rankOf uf y \<le> B"
    using rank_bound by blast
  have "x \<in> ufKeys uf \<Longrightarrow> nat (B - rankOf uf x) = n \<Longrightarrow> \<exists>r. rootOf (parentOf uf) x r" for n x
  proof (induction n arbitrary: x rule: less_induct)
    case (less n)
    show ?case
    proof (cases "parentOf uf x = x")
      case True
      then show ?thesis by (auto intro: rootOf.root)
    next
      case False
      have px: "parentOf uf x \<in> ufKeys uf" and lt: "rankOf uf x < rankOf uf (parentOf uf x)"
        using inv less.prems(1) False by (auto simp: ufInv_def)
      have "nat (B - rankOf uf (parentOf uf x)) < n"
        using lt B px less.prems(2) by auto
      then obtain r where "rootOf (parentOf uf) (parentOf uf x) r"
        using less.IH px by blast
      then show ?thesis using False by (auto intro: rootOf.step)
    qed
  qed
  then show ?thesis using x by blast
qed

subsection \<open>find\<close>

lemma uf_find_correct:
  assumes inv: "ufInv uf" and x: "x \<in> ufKeys uf"
  shows "\<exists>uf' r. uf_find uf x = Some (uf', r) \<and> rootOf (parentOf uf) x r \<and> ufInv uf'
           \<and> map fst (parent uf') = map fst (parent uf) \<and> rank uf' = rank uf
           \<and> (\<forall>y s. rootOf (parentOf uf) y s \<longrightarrow> rootOf (parentOf uf') y s)"
proof -
  obtain B where B: "\<forall>y \<in> ufKeys uf. rankOf uf y \<le> B"
    using rank_bound by blast
  have "x \<in> ufKeys uf \<Longrightarrow> nat (B - rankOf uf x) = n \<Longrightarrow>
        \<exists>uf' r. uf_find uf x = Some (uf', r) \<and> rootOf (parentOf uf) x r \<and> ufInv uf'
           \<and> map fst (parent uf') = map fst (parent uf) \<and> rank uf' = rank uf
           \<and> (\<forall>y s. rootOf (parentOf uf) y s \<longrightarrow> rootOf (parentOf uf') y s)" for n x
  proof (induction n arbitrary: x rule: less_induct)
    case (less n)
    show ?case
    proof (cases "parentOf uf x = x")
      case True
      have "uf_find uf x = Some (uf, x)"
        using True by (subst uf_find.simps) simp
      then show ?thesis using True inv by (auto intro: rootOf.root)
    next
      case False
      have px: "parentOf uf x \<in> ufKeys uf" and lt: "rankOf uf x < rankOf uf (parentOf uf x)"
        using inv less.prems(1) False by (auto simp: ufInv_def)
      have "nat (B - rankOf uf (parentOf uf x)) < n"
        using lt B px less.prems(2) by auto
      then obtain uf1 r where f1: "uf_find uf (parentOf uf x) = Some (uf1, r)"
        and r1: "rootOf (parentOf uf) (parentOf uf x) r"
        and inv1: "ufInv uf1"
        and k1: "map fst (parent uf1) = map fst (parent uf)"
        and rk1: "rank uf1 = rank uf"
        and pres1: "\<forall>y s. rootOf (parentOf uf) y s \<longrightarrow> rootOf (parentOf uf1) y s"
        using less.IH px by blast
      define uf2 where "uf2 = uf1\<lparr>parent := AList.update x r (parent uf1)\<rparr>"
      have keys1: "ufKeys uf1 = ufKeys uf"
        using k1 by (rule ufKeys_map_fst)
      have x1: "x \<in> ufKeys uf1"
        using keys1 less.prems(1) by simp
      have rx: "rootOf (parentOf uf) x r"
        using False r1 by (rule rootOf.step)
      have rx1: "rootOf (parentOf uf1) x r"
        using pres1 rx by blast
      have rfacts: "r \<in> ufKeys uf1" "x \<noteq> r \<longrightarrow> rankOf uf1 x < rankOf uf1 r"
        using rootOf_in_keys [OF inv1 rx1 x1] by auto
      have p2: "parentOf uf2 = (parentOf uf1)(x := r)"
        by (simp add: uf2_def)
      have res: "uf_find uf x = Some (uf2, r)"
        using False f1 by (subst uf_find.simps) (simp add: uf2_def)
      have k2: "map fst (parent uf2) = map fst (parent uf)"
        using keys_update_same [OF x1] k1 by (simp add: uf2_def)
      have keys2: "ufKeys uf2 = ufKeys uf1"
        using x1 by (auto simp: uf2_def)
      have rk2: "rank uf2 = rank uf"
        using rk1 by (simp add: uf2_def)
      have rank2: "rankOf uf2 = rankOf uf1"
        by (simp add: uf2_def)
      have inv2: "ufInv uf2"
        unfolding ufInv_def
      proof (intro conjI ballI impI)
        show "distinct (map fst (parent uf2))"
          using inv k2 by (simp add: ufInv_def)
      next
        fix y assume "y \<in> ufKeys uf2"
        then show "parentOf uf2 y \<in> ufKeys uf2"
          using inv1 rfacts(1) keys2 by (auto simp: p2 ufInv_def)
      next
        fix y assume y: "y \<in> ufKeys uf2" and ne: "parentOf uf2 y \<noteq> y"
        show "rankOf uf2 y < rankOf uf2 (parentOf uf2 y)"
        proof (cases "y = x")
          case True
          then show ?thesis using ne rfacts(2) by (auto simp: p2 rank2)
        next
          case False
          then show ?thesis using inv1 y ne keys2 by (auto simp: p2 rank2 ufInv_def)
        qed
      qed
      have pres2: "\<forall>y s. rootOf (parentOf uf) y s \<longrightarrow> rootOf (parentOf uf2) y s"
        using pres1 rootOf_compress [OF rx1] by (simp add: p2)
      show ?thesis
        using res rx inv2 k2 rk2 pres2 by blast
    qed
  qed
  then show ?thesis using x by blast
qed

subsection \<open>The relation of a structure\<close>

lemma ufRel_refl: "ufInv uf \<Longrightarrow> x \<in> ufKeys uf \<Longrightarrow> (x, x) \<in> ufRel uf"
  using rootOf_exists [of uf x] by (auto simp: ufRel_def)

lemma ufRel_sym: "(x, y) \<in> ufRel uf \<Longrightarrow> (y, x) \<in> ufRel uf"
  by (auto simp: ufRel_def)

lemma ufRel_trans: "(x, y) \<in> ufRel uf \<Longrightarrow> (y, z) \<in> ufRel uf \<Longrightarrow> (x, z) \<in> ufRel uf"
  using rootOf_unique by (fastforce simp: ufRel_def)

lemma ufRel_keys: "(x, y) \<in> ufRel uf \<Longrightarrow> x \<in> ufKeys uf \<and> y \<in> ufKeys uf"
  by (simp add: ufRel_def)

subsection \<open>Connected nodes of a graph\<close>

lemma connected_refl: "x \<in> V \<Longrightarrow> (x, x) \<in> connected V E"
  by (simp add: connected_def)

lemma connected_sym: "(x, y) \<in> connected V E \<Longrightarrow> (y, x) \<in> connected V E"
proof -
  have "sym ((E \<union> E\<inverse>)\<^sup>*)"
    by (rule sym_rtrancl) (rule sym_Un_converse)
  then show "(x, y) \<in> connected V E \<Longrightarrow> (y, x) \<in> connected V E"
    by (auto simp: connected_def dest: symD)
qed

lemma connected_trans:
  "(x, y) \<in> connected V E \<Longrightarrow> (y, z) \<in> connected V E \<Longrightarrow> (x, z) \<in> connected V E"
  by (auto simp: connected_def)

lemma connected_edge: "(a, b) \<in> E \<Longrightarrow> a \<in> V \<Longrightarrow> b \<in> V \<Longrightarrow> (a, b) \<in> connected V E"
  by (auto simp: connected_def)

lemma connected_mono: "E \<subseteq> E' \<Longrightarrow> connected V E \<subseteq> connected V E'"
proof -
  assume "E \<subseteq> E'"
  then have "(E \<union> E\<inverse>)\<^sup>* \<subseteq> (E' \<union> E'\<inverse>)\<^sup>*"
    by (intro rtrancl_mono) auto
  then show ?thesis
    by (auto simp: connected_def)
qed

lemma connected_least:
  assumes refl: "\<And>x. x \<in> V \<Longrightarrow> (x, x) \<in> Rl"
    and sym: "\<And>x y. (x, y) \<in> Rl \<Longrightarrow> (y, x) \<in> Rl"
    and trans: "\<And>x y z. (x, y) \<in> Rl \<Longrightarrow> (y, z) \<in> Rl \<Longrightarrow> (x, z) \<in> Rl"
    and edges: "E \<subseteq> Rl"
  shows "connected V E \<subseteq> Rl"
proof -
  have "(x, y) \<in> (E \<union> E\<inverse>)\<^sup>* \<Longrightarrow> x \<in> V \<Longrightarrow> (x, y) \<in> Rl" for x y
  proof (induction rule: rtrancl_induct)
    case base
    then show ?case by (rule refl)
  next
    case (step y z)
    have "(y, z) \<in> Rl"
      using step.hyps(2) edges sym by auto
    then show ?case
      using step.IH step.prems trans by blast
  qed
  then show ?thesis
    by (auto simp: connected_def)
qed

lemma isolated_node:
  assumes "E \<subseteq> V \<times> V" and "x \<notin> V" and "(x, y) \<in> (E \<union> E\<inverse>)\<^sup>*"
  shows "y = x"
  using assms(3)
proof (induction rule: rtrancl_induct)
  case base
  show ?case by simp
next
  case (step y z)
  then show ?case using assms(1,2) by auto
qed

lemma connected_insert_node:
  assumes "E \<subseteq> V \<times> V"
  shows "connected (insert n V) E = connected V E \<union> {(n, n)}"
proof (cases "n \<in> V")
  case True
  then show ?thesis
    by (auto simp: connected_def insert_absorb)
next
  case False
  have sym: "sym ((E \<union> E\<inverse>)\<^sup>*)"
    by (rule sym_rtrancl) (rule sym_Un_converse)
  have a: "(n, y) \<in> (E \<union> E\<inverse>)\<^sup>* \<Longrightarrow> y = n" for y
    using isolated_node [OF assms False] by blast
  have b: "(y, n) \<in> (E \<union> E\<inverse>)\<^sup>* \<Longrightarrow> y = n" for y
    using a sym by (auto dest: symD)
  show ?thesis
    using a b by (auto simp: connected_def)
qed

subsection \<open>add\<close>

lemma rootOf_new_key:
  assumes inv: "ufInv uf" and n: "n \<notin> ufKeys uf"
  shows "rootOf (parentOf uf) y s \<Longrightarrow> y \<in> ufKeys uf \<Longrightarrow> rootOf ((parentOf uf)(n := v)) y s"
proof -
  define q where "q = (parentOf uf)(n := v)"
  have q: "z \<in> ufKeys uf \<Longrightarrow> q z = parentOf uf z" for z
    using n by (auto simp: q_def)
  have "rootOf (parentOf uf) y s \<Longrightarrow> y \<in> ufKeys uf \<Longrightarrow> rootOf q y s"
  proof (induction rule: rootOf.induct)
    case (root y)
    then have "q y = y" using q by simp
    then show ?case by (rule rootOf.root)
  next
    case (step y s)
    have "parentOf uf y \<in> ufKeys uf"
      using inv step.prems by (simp add: ufInv_def)
    then have "rootOf q (parentOf uf y) s"
      using step.IH by simp
    then show ?case
      using rootOf.step [of q y s] q [OF step.prems] step.hyps(1) by simp
  qed
  then show "rootOf (parentOf uf) y s \<Longrightarrow> y \<in> ufKeys uf \<Longrightarrow> rootOf ((parentOf uf)(n := v)) y s"
    by (simp add: q_def)
qed

lemma uf_add_old: "n \<in> ufKeys uf \<Longrightarrow> uf_add uf n = uf"
  by (auto simp: uf_add_def ufKeys_iff)

lemma uf_add_new:
  "n \<notin> ufKeys uf \<Longrightarrow>
   uf_add uf n = uf\<lparr>parent := AList.update n n (parent uf), rank := AList.update n 0 (rank uf)\<rparr>"
  by (simp add: uf_add_def ufKeys_iff)

lemma uf_add_keys: "ufKeys (uf_add uf n) = insert n (ufKeys uf)"
proof (cases "n \<in> ufKeys uf")
  case True
  then show ?thesis by (auto simp: uf_add_old)
next
  case False
  then show ?thesis by (simp add: uf_add_new ufKeys_def dom_update)
qed

lemma uf_add_parentOf:
  "n \<notin> ufKeys uf \<Longrightarrow> parentOf (uf_add uf n) = (parentOf uf)(n := n)"
  by (rule ext) (simp add: uf_add_new parentOf_def update_conv')

lemma uf_add_rankOf:
  "n \<notin> ufKeys uf \<Longrightarrow> rankOf (uf_add uf n) = (rankOf uf)(n := 0)"
  by (rule ext) (simp add: uf_add_new rankOf_def update_conv')

lemma uf_add_inv:
  assumes inv: "ufInv uf"
  shows "ufInv (uf_add uf n)"
proof (cases "n \<in> ufKeys uf")
  case True
  then show ?thesis using inv by (simp add: uf_add_old)
next
  case False
  have d: "distinct (map fst (parent (uf_add uf n)))"
    using inv by (simp add: uf_add_new [OF False] ufInv_def distinct_update)
  show ?thesis
    unfolding ufInv_def
  proof (intro conjI ballI impI)
    show "distinct (map fst (parent (uf_add uf n)))" by (rule d)
  next
    fix y assume "y \<in> ufKeys (uf_add uf n)"
    then show "parentOf (uf_add uf n) y \<in> ufKeys (uf_add uf n)"
      using inv by (auto simp: uf_add_keys uf_add_parentOf [OF False] ufInv_def)
  next
    fix y assume y: "y \<in> ufKeys (uf_add uf n)" and ne: "parentOf (uf_add uf n) y \<noteq> y"
    then have yk: "y \<in> ufKeys uf" and yn: "y \<noteq> n"
      by (auto simp: uf_add_keys uf_add_parentOf [OF False] split: if_splits)
    have "parentOf uf y \<in> ufKeys uf"
      using inv yk by (simp add: ufInv_def)
    then have "parentOf uf y \<noteq> n"
      using False by auto
    then show "rankOf (uf_add uf n) y < rankOf (uf_add uf n) (parentOf (uf_add uf n) y)"
      using inv yk yn ne
      by (simp add: uf_add_parentOf [OF False] uf_add_rankOf [OF False] ufInv_def)
  qed
qed

lemma uf_add_rel:
  assumes inv: "ufInv uf"
  shows "ufRel (uf_add uf n) = ufRel uf \<union> {(n, n)}"
proof (cases "n \<in> ufKeys uf")
  case True
  then show ?thesis
    using ufRel_refl [OF inv True] by (auto simp: uf_add_old)
next
  case False
  let ?q = "parentOf (uf_add uf n)"
  have q: "?q = (parentOf uf)(n := n)"
    by (rule uf_add_parentOf [OF False])
  have old: "rootOf (parentOf uf) y s \<Longrightarrow> y \<in> ufKeys uf \<Longrightarrow> rootOf ?q y s" for y s
    using rootOf_new_key [OF inv False] by (simp add: q)
  have "?q n = n"
    by (simp add: q)
  then have new: "rootOf ?q n n"
    by (rule rootOf.root)
  have root_old: "rootOf ?q y s \<Longrightarrow> y \<in> ufKeys uf \<Longrightarrow> rootOf (parentOf uf) y s \<and> s \<noteq> n" for y s
  proof -
    assume a: "rootOf ?q y s" and y: "y \<in> ufKeys uf"
    obtain t where t: "rootOf (parentOf uf) y t"
      using rootOf_exists [OF inv y] by blast
    have "t \<in> ufKeys uf"
      using rootOf_in_keys [OF inv t y] by simp
    moreover have "s = t"
      using old [OF t y] a rootOf_unique by blast
    ultimately show ?thesis
      using t False by auto
  qed
  have root_new: "rootOf ?q n s \<Longrightarrow> s = n" for s
    using new rootOf_unique by blast
  show ?thesis
  proof (intro equalityI subsetI)
    fix xy assume xy: "xy \<in> ufRel (uf_add uf n)"
    obtain x y where eq: "xy = (x, y)" by (cases xy)
    obtain r where xk: "x \<in> insert n (ufKeys uf)" and yk: "y \<in> insert n (ufKeys uf)"
      and rx: "rootOf ?q x r" and ry: "rootOf ?q y r"
      using xy by (auto simp: eq ufRel_def uf_add_keys)
    show "xy \<in> ufRel uf \<union> {(n, n)}"
    proof (cases "x = n")
      case True
      then have "r = n" using rx root_new by simp
      then have "y = n" using ry yk root_old by blast
      then show ?thesis using True eq by simp
    next
      case xn: False
      then have xk': "x \<in> ufKeys uf" using xk by simp
      have rn: "r \<noteq> n" and rx': "rootOf (parentOf uf) x r"
        using root_old [OF rx xk'] by auto
      have "y \<noteq> n" using ry root_new rn by blast
      then have yk': "y \<in> ufKeys uf" using yk by simp
      have "rootOf (parentOf uf) y r"
        using root_old [OF ry yk'] by simp
      then show ?thesis
        using rx' xk' yk' by (auto simp: eq ufRel_def)
    qed
  next
    fix xy assume "xy \<in> ufRel uf \<union> {(n, n)}"
    then show "xy \<in> ufRel (uf_add uf n)"
      using old new by (auto simp: ufRel_def uf_add_keys)
  qed
qed

subsection \<open>union\<close>

lemma link_inv:
  assumes inv: "ufInv uf" and r1: "r1 \<in> ufKeys uf" and r2: "r2 \<in> ufKeys uf"
    and p2: "parentOf uf r2 = r2" and lt: "rankOf uf r1 < rankOf uf r2"
  shows "ufInv (uf\<lparr>parent := AList.update r1 r2 (parent uf)\<rparr>)"
  unfolding ufInv_def
proof (intro conjI ballI impI)
  show "distinct (map fst (parent (uf\<lparr>parent := AList.update r1 r2 (parent uf)\<rparr>)))"
    using inv by (simp add: ufInv_def distinct_update)
next
  fix y assume "y \<in> ufKeys (uf\<lparr>parent := AList.update r1 r2 (parent uf)\<rparr>)"
  then show "parentOf (uf\<lparr>parent := AList.update r1 r2 (parent uf)\<rparr>) y
             \<in> ufKeys (uf\<lparr>parent := AList.update r1 r2 (parent uf)\<rparr>)"
    using inv r1 r2 by (auto simp: ufInv_def)
next
  fix y assume "y \<in> ufKeys (uf\<lparr>parent := AList.update r1 r2 (parent uf)\<rparr>)"
    and "parentOf (uf\<lparr>parent := AList.update r1 r2 (parent uf)\<rparr>) y \<noteq> y"
  then show "rankOf (uf\<lparr>parent := AList.update r1 r2 (parent uf)\<rparr>) y
             < rankOf (uf\<lparr>parent := AList.update r1 r2 (parent uf)\<rparr>)
                 (parentOf (uf\<lparr>parent := AList.update r1 r2 (parent uf)\<rparr>) y)"
    using inv r1 lt by (auto simp: ufInv_def split: if_splits)
qed

lemma link_equal_inv:
  assumes inv: "ufInv uf" and r1: "r1 \<in> ufKeys uf" and r2: "r2 \<in> ufKeys uf"
    and p1: "parentOf uf r1 = r1" and ne: "r1 \<noteq> r2" and eq: "rankOf uf r1 = rankOf uf r2"
  shows "ufInv (uf\<lparr>parent := AList.update r2 r1 (parent uf),
                  rank := AList.update r1 (rankOf uf r1 + 1) (rank uf)\<rparr>)"
proof -
  define uf' where "uf' = uf\<lparr>parent := AList.update r2 r1 (parent uf),
                  rank := AList.update r1 (rankOf uf r1 + 1) (rank uf)\<rparr>"
  have p: "parentOf uf' = (parentOf uf)(r2 := r1)"
    by (rule ext) (simp add: uf'_def parentOf_def update_conv')
  have r: "rankOf uf' = (rankOf uf)(r1 := rankOf uf r1 + 1)"
    by (rule ext) (simp add: uf'_def rankOf_def update_conv')
  have k: "ufKeys uf' = ufKeys uf"
    using r2 by (auto simp: uf'_def ufKeys_def dom_update)
  have "ufInv uf'"
    unfolding ufInv_def
  proof (intro conjI ballI impI)
    show "distinct (map fst (parent uf'))"
      using inv by (simp add: uf'_def ufInv_def distinct_update)
  next
    fix y assume "y \<in> ufKeys uf'"
    then show "parentOf uf' y \<in> ufKeys uf'"
      using inv r1 by (auto simp: p k ufInv_def)
  next
    fix y assume y: "y \<in> ufKeys uf'" and pne: "parentOf uf' y \<noteq> y"
    show "rankOf uf' y < rankOf uf' (parentOf uf' y)"
    proof (cases "y = r2")
      case True
      then show ?thesis using ne eq by (simp add: p r)
    next
      case False
      then have old: "parentOf uf y \<noteq> y" "parentOf uf' y = parentOf uf y"
        using pne by (simp_all add: p)
      then have yr1: "y \<noteq> r1"
        using p1 by auto
      have "rankOf uf y < rankOf uf (parentOf uf y)"
        using inv y old(1) by (simp add: k ufInv_def)
      then show ?thesis
        using yr1 old(2) by (auto simp: r)
    qed
  qed
  then show ?thesis
    by (simp add: uf'_def)
qed

lemma uf_union_correct:
  assumes inv: "ufInv uf" and a: "a \<in> ufKeys uf" and b: "b \<in> ufKeys uf"
  shows "\<exists>uf' ra rb t. uf_union uf a b = Some uf' \<and> ufInv uf'
           \<and> map fst (parent uf') = map fst (parent uf)
           \<and> rootOf (parentOf uf) a ra \<and> rootOf (parentOf uf) b rb \<and> (t = ra \<or> t = rb)
           \<and> (\<forall>y s. rootOf (parentOf uf) y s \<longrightarrow>
                  rootOf (parentOf uf') y (if s = ra \<or> s = rb then t else s))"
proof -
  obtain uf1 ra where f1: "uf_find uf a = Some (uf1, ra)"
    and ra: "rootOf (parentOf uf) a ra" and inv1: "ufInv uf1"
    and k1: "map fst (parent uf1) = map fst (parent uf)" and rk1: "rank uf1 = rank uf"
    and pres1: "\<forall>y s. rootOf (parentOf uf) y s \<longrightarrow> rootOf (parentOf uf1) y s"
    using uf_find_correct [OF inv a] by blast
  have keys1: "ufKeys uf1 = ufKeys uf"
    using k1 by (rule ufKeys_map_fst)
  have b1: "b \<in> ufKeys uf1"
    using b keys1 by simp
  obtain uf2 rb where f2: "uf_find uf1 b = Some (uf2, rb)"
    and rb1: "rootOf (parentOf uf1) b rb" and inv2: "ufInv uf2"
    and k2: "map fst (parent uf2) = map fst (parent uf1)" and rk2: "rank uf2 = rank uf1"
    and pres2: "\<forall>y s. rootOf (parentOf uf1) y s \<longrightarrow> rootOf (parentOf uf2) y s"
    using uf_find_correct [OF inv1 b1] by blast
  have keys2: "ufKeys uf2 = ufKeys uf"
    using k2 keys1 ufKeys_map_fst by blast
  obtain rb' where rb': "rootOf (parentOf uf) b rb'"
    using rootOf_exists [OF inv b] by blast
  have "rb' = rb"
    using rb' pres1 rb1 rootOf_unique by blast
  then have rb: "rootOf (parentOf uf) b rb"
    using rb' by simp
  have pres: "rootOf (parentOf uf) y s \<Longrightarrow> rootOf (parentOf uf2) y s" for y s
    using pres1 pres2 by blast
  have ra2: "rootOf (parentOf uf2) a ra" and rb2: "rootOf (parentOf uf2) b rb"
    using pres ra rb by blast+
  have a2: "a \<in> ufKeys uf2" and b2: "b \<in> ufKeys uf2"
    using a b keys2 by simp_all
  have rak: "ra \<in> ufKeys uf2" and rbk: "rb \<in> ufKeys uf2"
    using rootOf_in_keys [OF inv2 ra2 a2] rootOf_in_keys [OF inv2 rb2 b2] by simp_all
  have fa: "parentOf uf2 ra = ra" and fb: "parentOf uf2 rb = rb"
    using ra2 rb2 rootOf_fixed by blast+
  have k: "map fst (parent uf2) = map fst (parent uf)"
    using k1 k2 by simp
  show ?thesis
  proof (cases "ra = rb")
    case True
    have "uf_union uf a b = Some uf2"
      using f1 f2 True by (simp add: uf_union_def)
    moreover have "\<forall>y s. rootOf (parentOf uf) y s \<longrightarrow>
                  rootOf (parentOf uf2) y (if s = ra \<or> s = rb then ra else s)"
      using pres True by auto
    ultimately show ?thesis
      using inv2 k ra rb by blast
  next
    case ne: False
    consider (lt) "rankOf uf2 ra < rankOf uf2 rb" | (gt) "rankOf uf2 rb < rankOf uf2 ra"
      | (eq) "rankOf uf2 ra = rankOf uf2 rb"
      by linarith
    then show ?thesis
    proof cases
      case lt
      define uf' where "uf' = uf2\<lparr>parent := AList.update ra rb (parent uf2)\<rparr>"
      have res: "uf_union uf a b = Some uf'"
        using f1 f2 ne lt by (simp add: uf_union_def uf'_def)
      have inv': "ufInv uf'"
        unfolding uf'_def using inv2 rak rbk fb lt by (rule link_inv)
      have k': "map fst (parent uf') = map fst (parent uf)"
        using keys_update_same [OF rak] k by (simp add: uf'_def)
      have "rootOf (parentOf uf') y (if s = ra \<or> s = rb then rb else s)"
        if "rootOf (parentOf uf) y s" for y s
        using rootOf_link [OF fa fb ne pres [OF that]] by (auto simp: uf'_def)
      then show ?thesis
        using res inv' k' ra rb by blast
    next
      case gt
      define uf' where "uf' = uf2\<lparr>parent := AList.update rb ra (parent uf2)\<rparr>"
      have res: "uf_union uf a b = Some uf'"
        using f1 f2 ne gt by (simp add: uf_union_def uf'_def)
      have inv': "ufInv uf'"
        unfolding uf'_def using inv2 rbk rak fa gt by (rule link_inv)
      have k': "map fst (parent uf') = map fst (parent uf)"
        using keys_update_same [OF rbk] k by (simp add: uf'_def)
      have ne': "rb \<noteq> ra"
        using ne by simp
      have "rootOf (parentOf uf') y (if s = ra \<or> s = rb then ra else s)"
        if "rootOf (parentOf uf) y s" for y s
        using rootOf_link [OF fb fa ne' pres [OF that]] by (auto simp: uf'_def)
      then show ?thesis
        using res inv' k' ra rb by blast
    next
      case eq
      define uf' where "uf' = uf2\<lparr>parent := AList.update rb ra (parent uf2),
           rank := AList.update ra (rankOf uf2 ra + 1) (rank uf2)\<rparr>"
      have res: "uf_union uf a b = Some uf'"
        using f1 f2 ne eq by (simp add: uf_union_def uf'_def)
      have inv': "ufInv uf'"
        unfolding uf'_def using inv2 rak rbk fa ne eq by (rule link_equal_inv)
      have k': "map fst (parent uf') = map fst (parent uf)"
        using keys_update_same [OF rbk] k by (simp add: uf'_def)
      have p': "parentOf uf' = (parentOf uf2)(rb := ra)"
        by (rule ext) (simp add: uf'_def parentOf_def update_conv')
      have ne': "rb \<noteq> ra"
        using ne by simp
      have "rootOf (parentOf uf') y (if s = ra \<or> s = rb then ra else s)"
        if "rootOf (parentOf uf) y s" for y s
        using rootOf_link [OF fb fa ne' pres [OF that]] by (auto simp: p')
      then show ?thesis
        using res inv' k' ra rb by blast
    qed
  qed
qed

text \<open>What a call of \<open>union\<close> does to the relation of the structure.\<close>

lemma uf_union_rel:
  assumes inv: "ufInv uf" and a: "a \<in> ufKeys uf" and b: "b \<in> ufKeys uf"
  shows "\<exists>uf'. uf_union uf a b = Some uf' \<and> ufInv uf' \<and> ufKeys uf' = ufKeys uf
           \<and> ufRel uf \<subseteq> ufRel uf' \<and> (a, b) \<in> ufRel uf'
           \<and> (\<forall>x y. (x, y) \<in> ufRel uf' \<longrightarrow>
                 (x, y) \<in> ufRel uf
                 \<or> ((x, a) \<in> ufRel uf \<and> (b, y) \<in> ufRel uf)
                 \<or> ((x, b) \<in> ufRel uf \<and> (a, y) \<in> ufRel uf))"
proof -
  obtain uf' ra rb t where res: "uf_union uf a b = Some uf'" and inv': "ufInv uf'"
    and k: "map fst (parent uf') = map fst (parent uf)"
    and ra: "rootOf (parentOf uf) a ra" and rb: "rootOf (parentOf uf) b rb"
    and t: "t = ra \<or> t = rb"
    and move: "\<And>y s. rootOf (parentOf uf) y s \<Longrightarrow>
                  rootOf (parentOf uf') y (if s = ra \<or> s = rb then t else s)"
    using uf_union_correct [OF inv a b] by blast
  have keys: "ufKeys uf' = ufKeys uf"
    using k by (rule ufKeys_map_fst)
  have sub: "ufRel uf \<subseteq> ufRel uf'"
    using move by (fastforce simp: ufRel_def keys)
  have ab: "(a, b) \<in> ufRel uf'"
    using move [OF ra] move [OF rb] a b by (auto simp: ufRel_def keys)
  have orig: "(x, y) \<in> ufRel uf
                 \<or> ((x, a) \<in> ufRel uf \<and> (b, y) \<in> ufRel uf)
                 \<or> ((x, b) \<in> ufRel uf \<and> (a, y) \<in> ufRel uf)"
    if xy: "(x, y) \<in> ufRel uf'" for x y
  proof -
    obtain r where xk: "x \<in> ufKeys uf" and yk: "y \<in> ufKeys uf"
      and rx: "rootOf (parentOf uf') x r" and ry: "rootOf (parentOf uf') y r"
      using xy by (auto simp: ufRel_def keys)
    obtain sx where sx: "rootOf (parentOf uf) x sx"
      using rootOf_exists [OF inv xk] by blast
    obtain sy where sy: "rootOf (parentOf uf) y sy"
      using rootOf_exists [OF inv yk] by blast
    have ex: "(if sx = ra \<or> sx = rb then t else sx) = r"
      using move [OF sx] rx rootOf_unique by blast
    have ey: "(if sy = ra \<or> sy = rb then t else sy) = r"
      using move [OF sy] ry rootOf_unique by blast
    consider (same) "sx = sy" | (ab) "sx = ra" "sy = rb" | (ba) "sx = rb" "sy = ra"
      using ex ey t by (auto split: if_splits)
    then show ?thesis
    proof cases
      case same
      then show ?thesis using sx sy xk yk by (auto simp: ufRel_def)
    next
      case ab
      then show ?thesis using sx sy ra rb xk yk a b by (auto simp: ufRel_def)
    next
      case ba
      then show ?thesis using sx sy ra rb xk yk a b by (auto simp: ufRel_def)
    qed
  qed
  show ?thesis
    using res inv' keys sub ab orig by blast
qed

subsection \<open>Sequences of operations\<close>

lemma uf_union_connected:
  assumes inv: "ufInv uf" and a: "a \<in> ufKeys uf" and b: "b \<in> ufKeys uf"
    and rel: "ufRel uf = connected (ufKeys uf) E" and E: "E \<subseteq> ufKeys uf \<times> ufKeys uf"
  shows "\<exists>uf'. uf_union uf a b = Some uf' \<and> ufInv uf' \<and> ufKeys uf' = ufKeys uf
           \<and> ufRel uf' = connected (ufKeys uf) (insert (a, b) E)"
proof -
  let ?V = "ufKeys uf"
  let ?C = "connected ?V (insert (a, b) E)"
  obtain uf' where res: "uf_union uf a b = Some uf'" and inv': "ufInv uf'"
    and keys: "ufKeys uf' = ?V" and sub: "ufRel uf \<subseteq> ufRel uf'" and ab: "(a, b) \<in> ufRel uf'"
    and orig: "\<And>x y. (x, y) \<in> ufRel uf' \<Longrightarrow>
                 (x, y) \<in> ufRel uf
                 \<or> ((x, a) \<in> ufRel uf \<and> (b, y) \<in> ufRel uf)
                 \<or> ((x, b) \<in> ufRel uf \<and> (a, y) \<in> ufRel uf)"
    using uf_union_rel [OF inv a b] by blast
  have old: "ufRel uf \<subseteq> ?C"
    using connected_mono [of E "insert (a, b) E" ?V] rel by auto
  have cab: "(a, b) \<in> ?C"
    using a b by (simp add: connected_edge)
  have cba: "(b, a) \<in> ?C"
    using cab by (rule connected_sym)
  have "ufRel uf' \<subseteq> ?C"
  proof
    fix xy assume xy: "xy \<in> ufRel uf'"
    obtain x y where eq: "xy = (x, y)" by (cases xy)
    from orig [of x y] xy eq consider "(x, y) \<in> ufRel uf"
      | "(x, a) \<in> ufRel uf" "(b, y) \<in> ufRel uf"
      | "(x, b) \<in> ufRel uf" "(a, y) \<in> ufRel uf"
      by auto
    then have "(x, y) \<in> ?C"
    proof cases
      case 1
      then show ?thesis using old by auto
    next
      case 2
      then have xa: "(x, a) \<in> ?C" and yb: "(b, y) \<in> ?C" using old by auto
      show ?thesis
        by (rule connected_trans [OF connected_trans [OF xa cab] yb])
    next
      case 3
      then have xb: "(x, b) \<in> ?C" and ya: "(a, y) \<in> ?C" using old by auto
      show ?thesis
        by (rule connected_trans [OF connected_trans [OF xb cba] ya])
    qed
    then show "xy \<in> ?C" by (simp add: eq)
  qed
  moreover have "?C \<subseteq> ufRel uf'"
  proof (rule connected_least)
    fix x assume "x \<in> ?V"
    then show "(x, x) \<in> ufRel uf'"
      using ufRel_refl [OF inv'] keys by simp
  next
    fix x y assume "(x, y) \<in> ufRel uf'"
    then show "(y, x) \<in> ufRel uf'" by (rule ufRel_sym)
  next
    fix x y z assume "(x, y) \<in> ufRel uf'" "(y, z) \<in> ufRel uf'"
    then show "(x, z) \<in> ufRel uf'" by (rule ufRel_trans)
  next
    have "E \<subseteq> connected ?V E"
      using E by (auto intro: connected_edge)
    then show "insert (a, b) E \<subseteq> ufRel uf'"
      using rel sub ab by auto
  qed
  ultimately show ?thesis
    using res inv' keys by blast
qed

lemma uf_add_connected:
  assumes inv: "ufInv uf" and rel: "ufRel uf = connected (ufKeys uf) E"
    and E: "E \<subseteq> ufKeys uf \<times> ufKeys uf"
  shows "ufRel (uf_add uf n) = connected (ufKeys (uf_add uf n)) E"
  using uf_add_rel [OF inv, of n] connected_insert_node [OF E, of n] rel
  by (simp add: uf_add_keys)

lemma applyOps_correct:
  assumes "ufInv uf" and "ufRel uf = connected (ufKeys uf) E"
    and "E \<subseteq> ufKeys uf \<times> ufKeys uf" and "unionsOnAdded (ufKeys uf) ops"
  shows "\<exists>uf'. applyOps uf ops = Some uf' \<and> ufInv uf'
           \<and> ufKeys uf' = ufKeys uf \<union> addedNodes ops
           \<and> ufRel uf' = connected (ufKeys uf') (E \<union> unionEdges ops)"
  using assms
proof (induction ops arbitrary: uf E)
  case Nil
  then show ?case by simp
next
  case (Cons op ops)
  show ?case
  proof (cases op)
    case (Add n)
    have "\<exists>uf'. applyOps (uf_add uf n) ops = Some uf' \<and> ufInv uf'
           \<and> ufKeys uf' = ufKeys (uf_add uf n) \<union> addedNodes ops
           \<and> ufRel uf' = connected (ufKeys uf') (E \<union> unionEdges ops)"
    proof (rule Cons.IH)
      show "ufInv (uf_add uf n)"
        using Cons.prems(1) by (rule uf_add_inv)
      show "ufRel (uf_add uf n) = connected (ufKeys (uf_add uf n)) E"
        using Cons.prems(1,2,3) by (rule uf_add_connected)
      show "E \<subseteq> ufKeys (uf_add uf n) \<times> ufKeys (uf_add uf n)"
        using Cons.prems(3) by (auto simp: uf_add_keys)
      show "unionsOnAdded (ufKeys (uf_add uf n)) ops"
        using Cons.prems(4) Add by (simp add: uf_add_keys)
    qed
    then show ?thesis
      using Add by (auto simp: uf_add_keys)
  next
    case (Union a b)
    have a: "a \<in> ufKeys uf" and b: "b \<in> ufKeys uf" and rest: "unionsOnAdded (ufKeys uf) ops"
      using Cons.prems(4) Union by simp_all
    obtain uf1 where u: "uf_union uf a b = Some uf1" and inv1: "ufInv uf1"
      and keys1: "ufKeys uf1 = ufKeys uf"
      and rel1: "ufRel uf1 = connected (ufKeys uf) (insert (a, b) E)"
      using uf_union_connected [OF Cons.prems(1) a b Cons.prems(2,3)] by blast
    have "\<exists>uf'. applyOps uf1 ops = Some uf' \<and> ufInv uf'
           \<and> ufKeys uf' = ufKeys uf1 \<union> addedNodes ops
           \<and> ufRel uf' = connected (ufKeys uf') (insert (a, b) E \<union> unionEdges ops)"
    proof (rule Cons.IH)
      show "ufInv uf1" by (rule inv1)
      show "ufRel uf1 = connected (ufKeys uf1) (insert (a, b) E)"
        using rel1 keys1 by simp
      show "insert (a, b) E \<subseteq> ufKeys uf1 \<times> ufKeys uf1"
        using Cons.prems(3) a b keys1 by auto
      show "unionsOnAdded (ufKeys uf1) ops"
        using rest keys1 by simp
    qed
    then show ?thesis
      using Union u keys1 by auto
  qed
qed

lemma newUnionFind_inv: "ufInv newUnionFind" "ufKeys newUnionFind = {}" "ufRel newUnionFind = {}"
  by (auto simp: ufInv_def newUnionFind_def ufKeys_def ufRel_def)

lemma connected_empty: "connected {} E = {}"
  by (simp add: connected_def)

lemma applyOps_new:
  assumes "unionsOnAdded {} ops"
  shows "\<exists>uf. applyOps newUnionFind ops = Some uf \<and> ufInv uf
           \<and> ufKeys uf = addedNodes ops
           \<and> ufRel uf = connected (addedNodes ops) (unionEdges ops)"
proof -
  obtain uf where "applyOps newUnionFind ops = Some uf" and "ufInv uf"
    and k: "ufKeys uf = addedNodes ops"
    and "ufRel uf = connected (ufKeys uf) (unionEdges ops)"
    using applyOps_correct [of newUnionFind "{}" ops] assms
    by (auto simp: newUnionFind_inv connected_empty)
  then show ?thesis
    by auto
qed

subsection \<open>getComponents\<close>

lemma groupedByRoot_step:
  assumes g: "groupedByRoot p cm D" and n: "n \<notin> D" and r: "rootOf p n r"
  shows "groupedByRoot p (AList.update r (componentOf cm r @ [n]) cm) (insert n D)"
proof -
  have d: "distinct (map fst cm)"
    and e: "\<And>r. case map_of cm r of
                None \<Rightarrow> \<not> (\<exists>n \<in> D. rootOf p n r)
              | Some c \<Rightarrow> c \<noteq> [] \<and> distinct c \<and> set c = {n \<in> D. rootOf p n r}"
    using g by (auto simp: groupedByRoot_def)
  have other: "rootOf p n r' \<longleftrightarrow> r' = r" for r'
    using r rootOf_unique by blast
  have old: "distinct (componentOf cm r) \<and> set (componentOf cm r) = {m \<in> D. rootOf p m r}"
    using e [of r] by (auto simp: componentOf_def split: option.splits)
  show ?thesis
    unfolding groupedByRoot_def
  proof (intro conjI allI)
    show "distinct (map fst (AList.update r (componentOf cm r @ [n]) cm))"
      using d by (simp add: distinct_update)
  next
    fix r'
    show "case map_of (AList.update r (componentOf cm r @ [n]) cm) r' of
                None \<Rightarrow> \<not> (\<exists>m \<in> insert n D. rootOf p m r')
              | Some c \<Rightarrow> c \<noteq> [] \<and> distinct c \<and> set c = {m \<in> insert n D. rootOf p m r'}"
    proof (cases "r' = r")
      case True
      then show ?thesis
        using old n r by (auto simp: update_conv')
    next
      case False
      then show ?thesis
        using e [of r'] other [of r'] by (auto simp: update_conv' split: option.splits)
    qed
  qed
qed

lemma collectComponents_correct:
  assumes inv0: "ufInv uf0"
  shows "ufInv uf \<Longrightarrow> ufKeys uf = ufKeys uf0 \<Longrightarrow>
         (\<forall>y s. rootOf (parentOf uf0) y s \<longrightarrow> rootOf (parentOf uf) y s) \<Longrightarrow>
         set nodes \<subseteq> ufKeys uf0 \<Longrightarrow> distinct nodes \<Longrightarrow> set nodes \<inter> D = {} \<Longrightarrow>
         groupedByRoot (parentOf uf0) cm D \<Longrightarrow>
         \<exists>uf' cm'. collectComponents uf cm nodes = Some (uf', cm')
            \<and> groupedByRoot (parentOf uf0) cm' (D \<union> set nodes)"
proof (induction nodes arbitrary: uf cm D)
  case Nil
  then show ?case by simp
next
  case (Cons n nodes)
  have nk0: "n \<in> ufKeys uf0"
    using Cons.prems(4) by simp
  have nk: "n \<in> ufKeys uf"
    using nk0 Cons.prems(2) by simp
  obtain uf1 r where f: "uf_find uf n = Some (uf1, r)" and r: "rootOf (parentOf uf) n r"
    and inv1: "ufInv uf1" and k1: "map fst (parent uf1) = map fst (parent uf)"
    and pres1: "\<forall>y s. rootOf (parentOf uf) y s \<longrightarrow> rootOf (parentOf uf1) y s"
    using uf_find_correct [OF Cons.prems(1) nk] by blast
  obtain r0 where r0: "rootOf (parentOf uf0) n r0"
    using rootOf_exists [OF inv0 nk0] by blast
  have "r0 = r"
    using r0 Cons.prems(3) r rootOf_unique by blast
  then have rn: "rootOf (parentOf uf0) n r"
    using r0 by simp
  have nD: "n \<notin> D"
    using Cons.prems(6) by auto
  have g1: "groupedByRoot (parentOf uf0) (AList.update r (componentOf cm r @ [n]) cm) (insert n D)"
    using Cons.prems(7) nD rn by (rule groupedByRoot_step)
  have "\<exists>uf' cm'. collectComponents uf1 (AList.update r (componentOf cm r @ [n]) cm) nodes
            = Some (uf', cm')
            \<and> groupedByRoot (parentOf uf0) cm' (insert n D \<union> set nodes)"
  proof (rule Cons.IH)
    show "ufInv uf1" by (rule inv1)
    show "ufKeys uf1 = ufKeys uf0"
      using ufKeys_map_fst [OF k1] Cons.prems(2) by simp
    show "\<forall>y s. rootOf (parentOf uf0) y s \<longrightarrow> rootOf (parentOf uf1) y s"
      using Cons.prems(3) pres1 by blast
    show "set nodes \<subseteq> ufKeys uf0"
      using Cons.prems(4) by simp
    show "distinct nodes"
      using Cons.prems(5) by simp
    show "set nodes \<inter> insert n D = {}"
      using Cons.prems(5,6) by auto
    show "groupedByRoot (parentOf uf0) (AList.update r (componentOf cm r @ [n]) cm) (insert n D)"
      by (rule g1)
  qed
  then show ?case
    using f by auto
qed

lemma grouped_entry:
  assumes "groupedByRoot p cm D" and "(r, c) \<in> set cm"
  shows "c \<noteq> [] \<and> distinct c \<and> set c = {n \<in> D. rootOf p n r}"
proof -
  have e: "case map_of cm r of
                None \<Rightarrow> \<not> (\<exists>n \<in> D. rootOf p n r)
              | Some c \<Rightarrow> c \<noteq> [] \<and> distinct c \<and> set c = {n \<in> D. rootOf p n r}"
    using assms(1) by (simp add: groupedByRoot_def)
  have "map_of cm r = Some c"
    using assms by (simp add: groupedByRoot_def)
  then show ?thesis
    using e by simp
qed

lemma grouped_roots:
  assumes "groupedByRoot p cm D"
  shows "fst ` set cm = {r. \<exists>n \<in> D. rootOf p n r}"
proof -
  have e: "case map_of cm r of
                None \<Rightarrow> \<not> (\<exists>n \<in> D. rootOf p n r)
              | Some c \<Rightarrow> c \<noteq> [] \<and> distinct c \<and> set c = {n \<in> D. rootOf p n r}" for r
    using assms by (simp add: groupedByRoot_def)
  have "r \<in> fst ` set cm \<longleftrightarrow> (\<exists>n \<in> D. rootOf p n r)" for r
  proof (cases "map_of cm r")
    case None
    then have "\<not> (\<exists>n \<in> D. rootOf p n r)"
      using e [of r] by simp
    moreover have "r \<notin> fst ` set cm"
      using None by (simp add: map_of_eq_None_iff)
    ultimately show ?thesis by simp
  next
    case (Some c)
    then have "c \<noteq> []" "set c = {n \<in> D. rootOf p n r}"
      using e [of r] by simp_all
    then have "\<exists>n \<in> D. rootOf p n r"
      by (cases c) auto
    moreover have "r \<in> fst ` set cm"
      using Some map_of_eq_None_iff [of cm r] by auto
    ultimately show ?thesis by simp
  qed
  then show ?thesis by blast
qed

lemma grouped_partition:
  assumes g: "groupedByRoot p cm D" and ex: "\<And>n. n \<in> D \<Longrightarrow> \<exists>r. rootOf p n r"
  shows "distinct (concat (map snd cm))" and "set (concat (map snd cm)) = D"
    and "[] \<notin> set (map snd cm)"
proof -
  have entry: "(r, c) \<in> set cm \<Longrightarrow> c \<noteq> [] \<and> distinct c \<and> set c = {n \<in> D. rootOf p n r}"
    for r c
    using grouped_entry [OF g] by blast
  have same: "r1 = r2" if "(r1, c1) \<in> set cm" "(r2, c2) \<in> set cm" "n \<in> set c1" "n \<in> set c2"
    for r1 r2 c1 c2 n
  proof -
    have "rootOf p n r1" "rootOf p n r2"
      using that entry [of r1 c1] entry [of r2 c2] by simp_all
    then show ?thesis
      by (rule rootOf_unique)
  qed
  have dk: "distinct (map fst cm)"
    using g by (simp add: groupedByRoot_def)
  have det: "c1 = c2" if "(r, c1) \<in> set cm" "(r, c2) \<in> set cm" for r c1 c2
    using map_of_is_SomeI [OF dk that(1)] map_of_is_SomeI [OF dk that(2)] by simp
  show "[] \<notin> set (map snd cm)"
    using entry by force
  show "set (concat (map snd cm)) = D"
  proof (intro equalityI subsetI)
    fix n assume "n \<in> set (concat (map snd cm))"
    then obtain r c where "(r, c) \<in> set cm" "n \<in> set c"
      by auto
    then show "n \<in> D"
      using entry [of r c] by auto
  next
    fix n assume n: "n \<in> D"
    then obtain r where r: "rootOf p n r"
      using ex by blast
    then have "r \<in> fst ` set cm"
      using grouped_roots [OF g] n by auto
    then obtain c where c: "(r, c) \<in> set cm"
      by auto
    then have "n \<in> set c"
      using entry [of r c] n r by simp
    then show "n \<in> set (concat (map snd cm))"
      using c by force
  qed
  show "distinct (concat (map snd cm))"
  proof (rule distinct_concat)
    have "inj_on snd (set cm)"
    proof (rule inj_onI)
      fix x y assume x: "x \<in> set cm" and y: "y \<in> set cm" and eq: "snd x = snd y"
      obtain r1 c1 where x': "x = (r1, c1)" by (cases x)
      obtain r2 c2 where y': "y = (r2, c2)" by (cases y)
      have "c1 \<noteq> []"
        using entry [of r1 c1] x x' by simp
      then obtain n where "n \<in> set c1"
        by (cases c1) auto
      then have "r1 = r2"
        using same [of r1 c1 r2 c2 n] x y eq x' y' by simp
      then show "x = y"
        using eq x' y' by simp
    qed
    moreover have "distinct cm"
      using dk by (simp add: distinct_map)
    ultimately show "distinct (map snd cm)"
      by (simp add: distinct_map)
  next
    fix ys assume "ys \<in> set (map snd cm)"
    then show "distinct ys"
      using entry by auto
  next
    fix ys zs assume ys: "ys \<in> set (map snd cm)" and zs: "zs \<in> set (map snd cm)"
      and ne: "ys \<noteq> zs"
    obtain r1 where r1: "(r1, ys) \<in> set cm" using ys by auto
    obtain r2 where r2: "(r2, zs) \<in> set cm" using zs by auto
    show "set ys \<inter> set zs = {}"
    proof (rule ccontr)
      assume "set ys \<inter> set zs \<noteq> {}"
      then obtain n where "n \<in> set ys" "n \<in> set zs" by auto
      then have "r1 = r2"
        using same [OF r1 r2] by simp
      then show False
        using det r1 r2 ne by blast
    qed
  qed
qed

lemma quotient_by_roots:
  assumes inv: "ufInv uf"
  shows "card (ufKeys uf // ufRel uf) = card {r. \<exists>n \<in> ufKeys uf. rootOf (parentOf uf) n r}"
proof -
  let ?K = "ufKeys uf"
  let ?p = "parentOf uf"
  let ?Roots = "{r. \<exists>n \<in> ?K. rootOf ?p n r}"
  let ?cls = "\<lambda>r. {n \<in> ?K. rootOf ?p n r}"
  have img: "ufRel uf `` {x} = ?cls r" if x: "x \<in> ?K" and r: "rootOf ?p x r" for x r
  proof (intro equalityI subsetI)
    fix y assume "y \<in> ufRel uf `` {x}"
    then have "(x, y) \<in> ufRel uf"
      by simp
    then obtain r' where y: "y \<in> ?K" and "rootOf ?p x r'" and yr: "rootOf ?p y r'"
      unfolding ufRel_def by blast
    then have "r' = r"
      using r rootOf_unique by blast
    then show "y \<in> ?cls r"
      using y yr by simp
  next
    fix y assume "y \<in> ?cls r"
    then have "(x, y) \<in> ufRel uf"
      unfolding ufRel_def using x r by blast
    then show "y \<in> ufRel uf `` {x}"
      by simp
  qed
  have "?K // ufRel uf = ?cls ` ?Roots"
  proof (intro equalityI subsetI)
    fix c assume "c \<in> ?K // ufRel uf"
    then obtain x where x: "x \<in> ?K" and c: "c = ufRel uf `` {x}"
      by (rule quotientE)
    obtain r where r: "rootOf ?p x r"
      using rootOf_exists [OF inv x] by blast
    have "c = ?cls r"
      using img [OF x r] c by simp
    then show "c \<in> ?cls ` ?Roots"
      using x r by blast
  next
    fix c assume "c \<in> ?cls ` ?Roots"
    then obtain r x where c: "c = ?cls r" and x: "x \<in> ?K" and r: "rootOf ?p x r"
      by auto
    have "ufRel uf `` {x} \<in> ?K // ufRel uf"
      using x by (rule quotientI)
    then show "c \<in> ?K // ufRel uf"
      using img [OF x r] c by simp
  qed
  moreover have "inj_on ?cls ?Roots"
  proof (rule inj_onI)
    fix r1 r2 assume r1: "r1 \<in> ?Roots" and r2: "r2 \<in> ?Roots" and eq: "?cls r1 = ?cls r2"
    obtain n where n: "n \<in> ?K" "rootOf ?p n r1"
      using r1 by auto
    then have "n \<in> ?cls r1"
      by simp
    then have "n \<in> ?cls r2"
      using eq by simp
    then have "rootOf ?p n r2"
      by simp
    then show "r1 = r2"
      using n(2) rootOf_unique by blast
  qed
  ultimately show ?thesis
    using card_image [of ?cls ?Roots] by simp
qed

lemma getComponents_correct:
  assumes inv: "ufInv uf"
  shows "\<exists>uf' comps. getComponents uf = Some (uf', comps)
           \<and> distinct (concat comps) \<and> set (concat comps) = ufKeys uf \<and> [] \<notin> set comps
           \<and> length comps = card (ufKeys uf // ufRel uf)"
proof -
  have g0: "groupedByRoot (parentOf uf) [] {}"
    by (simp add: groupedByRoot_def)
  have "\<exists>uf' cm'. collectComponents uf [] (map fst (parent uf)) = Some (uf', cm')
            \<and> groupedByRoot (parentOf uf) cm' ({} \<union> set (map fst (parent uf)))"
    using inv g0
    by (intro collectComponents_correct) (auto simp: ufInv_def ufKeys_def)
  then obtain uf' cm where c: "collectComponents uf [] (map fst (parent uf)) = Some (uf', cm)"
    and g: "groupedByRoot (parentOf uf) cm (ufKeys uf)"
    by (auto simp: ufKeys_def)
  have res: "getComponents uf = Some (uf', map snd cm)"
    using c by (simp add: getComponents_def)
  have ex: "\<And>n. n \<in> ufKeys uf \<Longrightarrow> \<exists>r. rootOf (parentOf uf) n r"
    using rootOf_exists [OF inv] by blast
  have "length (map snd cm) = length (map fst cm)"
    by simp
  also have "\<dots> = card (set (map fst cm))"
  proof -
    have "distinct (map fst cm)"
      using g by (simp add: groupedByRoot_def)
    then show ?thesis
      by (rule distinct_card [symmetric])
  qed
  also have "\<dots> = card {r. \<exists>n \<in> ufKeys uf. rootOf (parentOf uf) n r}"
    using grouped_roots [OF g] by simp
  also have "\<dots> = card (ufKeys uf // ufRel uf)"
    using quotient_by_roots [OF inv] by simp
  finally have len: "length (map snd cm) = card (ufKeys uf // ufRel uf)" .
  show ?thesis
    using res len grouped_partition [OF g ex] by blast
qed

subsection \<open>The operations of the cohesion analyzer\<close>

lemma applyOps_append:
  "applyOps uf (xs @ ys) = applyOps uf xs \<bind> (\<lambda>uf'. applyOps uf' ys)"
proof (induction xs arbitrary: uf)
  case Nil
  show ?case by simp
next
  case (Cons op xs)
  show ?case
    by (cases op) (simp_all add: Cons.IH)
qed

lemma applyOps_adds:
  "applyOps uf (map (\<lambda>x. Add (g x)) xs) = Some (fold (\<lambda>x uf. uf_add uf (g x)) xs uf)"
  by (induction xs arbitrary: uf) simp_all

lemma connectFields_ops: "connectFields uf m fs = applyOps uf (map (Union m) fs)"
  by (induction fs arbitrary: uf) simp_all

lemma connectMethods_ops: "connectMethods uf ms = applyOps uf (methodOps ms)"
proof (induction ms arbitrary: uf)
  case Nil
  show ?case by (simp add: methodOps_def)
next
  case (Cons m ms)
  have "methodOps (m # ms) = map (Union (methodInfo.name m)) (usedFields m) @ methodOps ms"
    by (simp add: methodOps_def)
  then show ?case
    using Cons.IH by (simp add: applyOps_append connectFields_ops)
qed

lemma addedNodes_append: "addedNodes (xs @ ys) = addedNodes xs \<union> addedNodes ys"
proof (induction xs)
  case Nil
  show ?case by simp
next
  case (Cons op xs)
  then show ?case by (cases op) auto
qed

lemma unionEdges_append: "unionEdges (xs @ ys) = unionEdges xs \<union> unionEdges ys"
proof (induction xs)
  case Nil
  show ?case by simp
next
  case (Cons op xs)
  then show ?case by (cases op) auto
qed

lemma unionsOnAdded_append:
  "unionsOnAdded A (xs @ ys) = (unionsOnAdded A xs \<and> unionsOnAdded (A \<union> addedNodes xs) ys)"
proof (induction xs arbitrary: A)
  case Nil
  show ?case by simp
next
  case (Cons op xs)
  show ?case
    by (cases op) (auto simp: Cons.IH)
qed

lemma adds_facts:
  "addedNodes (map (\<lambda>x. Add (g x)) xs) = g ` set xs"
  "unionEdges (map (\<lambda>x. Add (g x)) xs) = {}"
  "unionsOnAdded A (map (\<lambda>x. Add (g x)) xs)"
  by (induction xs arbitrary: A) simp_all

lemma plain_adds_facts:
  "addedNodes (map Add ns) = set ns" "unionEdges (map Add ns) = {}" "unionsOnAdded A (map Add ns)"
  "applyOps uf (map Add ns) = Some (fold (\<lambda>n uf. uf_add uf n) ns uf)"
  by (induction ns arbitrary: A uf) simp_all

lemma unions_facts:
  "addedNodes (map (Union a) fs) = {}" "unionEdges (map (Union a) fs) = Pair a ` set fs"
  "unionsOnAdded A (map (Union a) fs) = (fs = [] \<or> (a \<in> A \<and> set fs \<subseteq> A))"
  by (induction fs) auto

lemma methodOps_facts:
  "addedNodes (methodOps ms) = {}"
  "unionEdges (methodOps ms) = {(methodInfo.name m, f) | m f. m \<in> set ms \<and> f \<in> set (usedFields m)}"
  "(\<forall>m \<in> set ms. methodInfo.name m \<in> A \<and> set (usedFields m) \<subseteq> A) \<Longrightarrow> unionsOnAdded A (methodOps ms)"
proof -
  have step: "methodOps (m # ms) = map (Union (methodInfo.name m)) (usedFields m) @ methodOps ms" for m ms
    by (simp add: methodOps_def)
  show "addedNodes (methodOps ms) = {}"
    by (induction ms) (simp_all add: methodOps_def addedNodes_append unions_facts)
  show "unionEdges (methodOps ms) = {(methodInfo.name m, f) | m f. m \<in> set ms \<and> f \<in> set (usedFields m)}"
  proof (induction ms)
    case Nil
    show ?case by (simp add: methodOps_def)
  next
    case (Cons m ms)
    show ?case
      unfolding step unionEdges_append unions_facts Cons.IH by auto
  qed
  show "(\<forall>m \<in> set ms. methodInfo.name m \<in> A \<and> set (usedFields m) \<subseteq> A) \<Longrightarrow> unionsOnAdded A (methodOps ms)"
  proof (induction ms)
    case Nil
    show ?case by (simp add: methodOps_def)
  next
    case (Cons m ms)
    then show ?case
      unfolding step unionsOnAdded_append unions_facts by auto
  qed
qed

lemma markUsedField_subset:
  "set used \<subseteq> set fieldMap \<Longrightarrow> set (markUsedField recvName fieldMap n used) \<subseteq> set fieldMap"
  by (induction recvName fieldMap n used rule: markUsedField.induct) auto

lemma findUsedFields_subset: "set (findUsedFields body recvName fieldMap) \<subseteq> set fieldMap"
proof -
  have "set used \<subseteq> set fieldMap \<Longrightarrow>
        set (fold (markUsedField recvName fieldMap) ns used) \<subseteq> set fieldMap" for ns used
    by (induction ns arbitrary: used) (simp_all add: markUsedField_subset)
  then show ?thesis
    by (cases body) (simp_all add: findUsedFields_def)
qed

lemma extractMethods_usedFields:
  "m \<in> set (extractMethods structName file fs) \<Longrightarrow> set (usedFields m) \<subseteq> set fs"
proof -
  assume "m \<in> set (extractMethods structName file fs)"
  then obtain fd where "m \<in> set (methodsOfDecl structName fs fd)"
    by (auto simp: extractMethods_def)
  then obtain recv where "usedFields m = findUsedFields (Body fd) (recvVarName recv) fs"
    by (auto simp: methodsOfDecl_def split: option.splits if_splits)
  then show ?thesis
    using findUsedFields_subset [of "Body fd" "recvVarName recv" fs] by simp
qed

lemma structOps_facts:
  assumes "\<forall>m \<in> set ms. set (usedFields m) \<subseteq> set fs"
  shows "addedNodes (structOps ms fs) = methodInfo.name ` set ms \<union> set fs"
    and "unionEdges (structOps ms fs) = {(methodInfo.name m, f) | m f. m \<in> set ms \<and> f \<in> set (usedFields m)}"
    and "unionsOnAdded {} (structOps ms fs)"
proof -
  show "addedNodes (structOps ms fs) = methodInfo.name ` set ms \<union> set fs"
    by (simp add: structOps_def addedNodes_append adds_facts plain_adds_facts methodOps_facts)
  show "unionEdges (structOps ms fs) = {(methodInfo.name m, f) | m f. m \<in> set ms \<and> f \<in> set (usedFields m)}"
    by (simp add: structOps_def unionEdges_append adds_facts plain_adds_facts methodOps_facts)
  have "unionsOnAdded (methodInfo.name ` set ms \<union> set fs) (methodOps ms)"
    using assms by (intro methodOps_facts(3)) auto
  then show "unionsOnAdded {} (structOps ms fs)"
    by (simp add: structOps_def unionsOnAdded_append addedNodes_append adds_facts
        plain_adds_facts)
qed

lemma applyOps_structOps:
  "applyOps newUnionFind (structOps ms fs) =
   connectMethods (fold (\<lambda>f uf. uf_add uf f) fs
                     (fold (\<lambda>m uf. uf_add uf (methodInfo.name m)) ms newUnionFind)) ms"
  by (simp add: structOps_def applyOps_append applyOps_adds plain_adds_facts
      connectMethods_ops)

lemma calculateStructLCOM4_correct:
  assumes "extractMethods structName file (extractFields structType) \<noteq> []"
  shows "\<exists>r. calculateStructLCOM4 structName structType file fileName = Some r
           \<and> distinct (concat (ComponentDetails r))
           \<and> set (concat (ComponentDetails r)) = usageNodes structName structType file
           \<and> [] \<notin> set (ComponentDetails r)
           \<and> LCOM4Score r = int (length (ComponentDetails r))
           \<and> length (ComponentDetails r)
               = componentCount (usageNodes structName structType file)
                   (usageEdges structName structType file)"
proof -
  define fs where "fs = extractFields structType"
  define ms where "ms = extractMethods structName file fs"
  have used: "\<forall>m \<in> set ms. set (usedFields m) \<subseteq> set fs"
    using extractMethods_usedFields by (auto simp: ms_def)
  have V: "addedNodes (structOps ms fs) = usageNodes structName structType file"
    using structOps_facts(1) [OF used] by (simp add: usageNodes_def ms_def fs_def)
  have E: "unionEdges (structOps ms fs) = usageEdges structName structType file"
    using structOps_facts(2) [OF used] by (simp add: usageEdges_def ms_def fs_def)
  obtain uf where ops: "applyOps newUnionFind (structOps ms fs) = Some uf" and inv: "ufInv uf"
    and keys: "ufKeys uf = addedNodes (structOps ms fs)"
    and rel: "ufRel uf = connected (addedNodes (structOps ms fs)) (unionEdges (structOps ms fs))"
    using applyOps_new [OF structOps_facts(3) [OF used]] by blast
  obtain uf' comps where gc: "getComponents uf = Some (uf', comps)"
    and part: "distinct (concat comps)" "set (concat comps) = ufKeys uf" "[] \<notin> set comps"
    and len: "length comps = card (ufKeys uf // ufRel uf)"
    using getComponents_correct [OF inv] by blast
  have res: "calculateStructLCOM4 structName structType file fileName =
      Some \<lparr>StructName = structName, FilePath = fileName,
            LCOM4Score = int (length comps), ComponentDetails = comps\<rparr>"
    using assms ops gc
    by (simp add: calculateStructLCOM4_def Let_def applyOps_structOps ms_def fs_def)
  have "length comps = componentCount (usageNodes structName structType file)
                   (usageEdges structName structType file)"
    using len keys rel V E by (simp add: componentCount_def)
  then show ?thesis
    using res part keys V by simp
qed

lemma one_component:
  assumes "V \<noteq> {}" and "\<And>x y. x \<in> V \<Longrightarrow> y \<in> V \<Longrightarrow> (x, y) \<in> connected V E"
  shows "componentCount V E = 1"
proof -
  have cls: "connected V E `` {x} = V" if "x \<in> V" for x
    using that assms(2) by (auto simp: connected_def)
  have "V // connected V E = {V}"
  proof (intro equalityI subsetI)
    fix c assume "c \<in> V // connected V E"
    then obtain x where "x \<in> V" "c = connected V E `` {x}"
      by (rule quotientE)
    then show "c \<in> {V}"
      using cls by simp
  next
    fix c assume "c \<in> {V}"
    moreover obtain x where x: "x \<in> V"
      using assms(1) by blast
    moreover have "connected V E `` {x} \<in> V // connected V E"
      using x by (rule quotientI)
    ultimately show "c \<in> V // connected V E"
      using cls [OF x] by simp
  qed
  then show ?thesis
    by (simp add: componentCount_def)
qed

lemma all_fields_used_connected:
  assumes ms: "extractMethods structName file (extractFields structType) \<noteq> []"
    and fs: "extractFields structType \<noteq> []"
    and all: "\<forall>m \<in> set (extractMethods structName file (extractFields structType)).
                set (extractFields structType) \<subseteq> set (usedFields m)"
  shows "componentCount (usageNodes structName structType file)
           (usageEdges structName structType file) = 1"
proof -
  let ?V = "usageNodes structName structType file"
  let ?E = "usageEdges structName structType file"
  let ?ms = "extractMethods structName file (extractFields structType)"
  let ?fs = "extractFields structType"
  obtain m0 where m0: "m0 \<in> set ?ms"
    using ms by (cases ?ms) auto
  obtain f0 where f0: "f0 \<in> set ?fs"
    using fs by (cases ?fs) auto
  have edge: "(methodInfo.name m, f) \<in> connected ?V ?E" if "m \<in> set ?ms" "f \<in> set ?fs" for m f
  proof -
    have "f \<in> set (usedFields m)"
      using that all by blast
    then have e: "(methodInfo.name m, f) \<in> ?E"
      unfolding usageEdges_def using that(1) by blast
    have v1: "methodInfo.name m \<in> ?V"
      unfolding usageNodes_def using that(1) by blast
    have v2: "f \<in> ?V"
      unfolding usageNodes_def using that(2) by blast
    show ?thesis
      using e v1 v2 by (rule connected_edge)
  qed
  have to_f0: "(x, f0) \<in> connected ?V ?E" if "x \<in> ?V" for x
  proof -
    from that consider m where "m \<in> set ?ms" "x = methodInfo.name m" | "x \<in> set ?fs"
      unfolding usageNodes_def by blast
    then show ?thesis
    proof cases
      case 1
      then show ?thesis using edge f0 by simp
    next
      case 2
      have "(x, methodInfo.name m0) \<in> connected ?V ?E"
        using edge [OF m0 2] by (rule connected_sym)
      then show ?thesis
        using edge [OF m0 f0] by (rule connected_trans)
    qed
  qed
  show ?thesis
  proof (rule one_component)
    have "f0 \<in> ?V"
      unfolding usageNodes_def using f0 by blast
    then show "?V \<noteq> {}"
      by blast
  next
    fix x y assume "x \<in> ?V" "y \<in> ?V"
    then have x: "(x, f0) \<in> connected ?V ?E" and y: "(y, f0) \<in> connected ?V ?E"
      using to_f0 by simp_all
    show "(x, y) \<in> connected ?V ?E"
      using x connected_sym [OF y] by (rule connected_trans)
  qed
qed

lemma componentCount_no_edges: "componentCount V {} = card V"
proof -
  have "connected V {} = Id_on V"
    by (auto simp: connected_def)
  then have "V // connected V {} = (\<lambda>x. {x}) ` V"
    by (auto simp: quotient_def)
  moreover have "card ((\<lambda>x. {x}) ` V) = card V"
    by (rule card_image) simp
  ultimately show ?thesis
    by (simp add: componentCount_def)
qed

lemma memberNodes_card: "card (memberNodes ms fs) = length ms + length fs"
proof -
  have "card (MethodNode ` {..<length ms}) = length ms"
    by (simp add: card_image inj_on_def)
  moreover have "card (FieldNode ` {..<length fs}) = length fs"
    by (simp add: card_image inj_on_def)
  moreover have "MethodNode ` {..<length ms} \<inter> FieldNode ` {..<length fs} = {}"
    by auto
  ultimately show ?thesis
    by (simp add: memberNodes_def card_Un_disjoint)
qed

lemma memberEdges_unused:
  "\<forall>m \<in> set ms. usedFields m = [] \<Longrightarrow> memberEdges ms fs = {}"
  by (auto simp: memberEdges_def)
section \<open>The LCOM4 score\<close>

text \<open>
  Claim C2 as stated fails in two ways. It says that a struct in which every method uses
  every field scores 1: in the struct \<open>type T struct{}\<close> with two methods every method
  uses every field, there being none, and the score is 2. And it takes the methods and
  fields themselves as the nodes of the graph, while the analyzer knows a node by its
  name: the struct \<open>type T struct { _, _ int }\<close> with one method \<open>m\<close> has three members
  and no usage, so three components, and scores 2; the struct \<open>type T struct { _ int }\<close>
  with the method \<open>_\<close> has two members and no usage, and scores 1.
\<close>

theorem fieldless_and_blank_structs:
  "extractFields emptyStruct = []
   \<and> map methodInfo.name (extractMethods ''T'' emptyStructFile (extractFields emptyStruct))
       = [''a'', ''b'']
   \<and> list_all (\<lambda>m. set (extractFields emptyStruct) \<subseteq> set (usedFields m))
         (extractMethods ''T'' emptyStructFile (extractFields emptyStruct))
   \<and> calculateStructLCOM4 ''T'' emptyStruct emptyStructFile ''t.go'' =
       Some \<lparr>StructName = ''T'', StructResult.FilePath = ''t.go'', LCOM4Score = 2,
             ComponentDetails = [[''a''], [''b'']]\<rparr>
   \<and> extractFields blankFieldsStruct = [''_'', ''_'']
   \<and> extractMethods ''T'' blankFieldsFile (extractFields blankFieldsStruct)
       = [\<lparr>methodInfo.name = ''m'', usedFields = []\<rparr>]
   \<and> componentCount
         (memberNodes (extractMethods ''T'' blankFieldsFile (extractFields blankFieldsStruct))
            (extractFields blankFieldsStruct))
         (memberEdges (extractMethods ''T'' blankFieldsFile (extractFields blankFieldsStruct))
            (extractFields blankFieldsStruct)) = 3
   \<and> calculateStructLCOM4 ''T'' blankFieldsStruct blankFieldsFile ''t.go'' =
       Some \<lparr>StructName = ''T'', StructResult.FilePath = ''t.go'', LCOM4Score = 2,
             ComponentDetails = [[''m''], [''_'']]\<rparr>
   \<and> extractFields blankMethodStruct = [''_'']
   \<and> extractMethods ''T'' blankMethodFile (extractFields blankMethodStruct)
       = [\<lparr>methodInfo.name = ''_'', usedFields = []\<rparr>]
   \<and> componentCount
         (memberNodes (extractMethods ''T'' blankMethodFile (extractFields blankMethodStruct))
            (extractFields blankMethodStruct))
         (memberEdges (extractMethods ''T'' blankMethodFile (extractFields blankMethodStruct))
            (extractFields blankMethodStruct)) = 2
   \<and> calculateStructLCOM4 ''T'' blankMethodStruct blankMethodFile ''t.go'' =
       Some \<lparr>StructName = ''T'', StructResult.FilePath = ''t.go'', LCOM4Score = 1,
             ComponentDetails = [[''_'']]\<rparr>"
proof -
  have e1: "extractFields emptyStruct = []"
    by (simp add: extractFields_def emptyStruct_def)
  have e2: "map methodInfo.name
      (extractMethods ''T'' emptyStructFile (extractFields emptyStruct)) = [''a'', ''b'']"
    by (simp add: extractMethods_def emptyStructFile_def methodsOfDecl_def methodDecl_def)
  have e3: "calculateStructLCOM4 ''T'' emptyStruct emptyStructFile ''t.go'' =
       Some \<lparr>StructName = ''T'', StructResult.FilePath = ''t.go'', LCOM4Score = 2,
             ComponentDetails = [[''a''], [''b'']]\<rparr>"
    by code_simp
  have f1: "extractFields blankFieldsStruct = [''_'', ''_'']"
    by (simp add: extractFields_def blankFieldsStruct_def)
  have f2: "extractMethods ''T'' blankFieldsFile [''_'', ''_'']
       = [\<lparr>methodInfo.name = ''m'', usedFields = []\<rparr>]"
    by (simp add: extractMethods_def blankFieldsFile_def methodsOfDecl_def methodDecl_def
        findUsedFields_def blockNode_def recvVarName_def)
  have f3: "componentCount (memberNodes [\<lparr>methodInfo.name = ''m'', usedFields = []\<rparr>] [''_'', ''_''])
         (memberEdges [\<lparr>methodInfo.name = ''m'', usedFields = []\<rparr>] [''_'', ''_'']) = 3"
    by (simp add: memberEdges_unused componentCount_no_edges memberNodes_card)
  have f4: "calculateStructLCOM4 ''T'' blankFieldsStruct blankFieldsFile ''t.go'' =
       Some \<lparr>StructName = ''T'', StructResult.FilePath = ''t.go'', LCOM4Score = 2,
             ComponentDetails = [[''m''], [''_'']]\<rparr>"
    by code_simp
  have g1: "extractFields blankMethodStruct = [''_'']"
    by (simp add: extractFields_def blankMethodStruct_def)
  have g2: "extractMethods ''T'' blankMethodFile [''_'']
       = [\<lparr>methodInfo.name = ''_'', usedFields = []\<rparr>]"
    by (simp add: extractMethods_def blankMethodFile_def methodsOfDecl_def methodDecl_def
        findUsedFields_def blockNode_def recvVarName_def)
  have g3: "componentCount (memberNodes [\<lparr>methodInfo.name = ''_'', usedFields = []\<rparr>] [''_''])
         (memberEdges [\<lparr>methodInfo.name = ''_'', usedFields = []\<rparr>] [''_'']) = 2"
    by (simp add: memberEdges_unused componentCount_no_edges memberNodes_card)
  have g4: "calculateStructLCOM4 ''T'' blankMethodStruct blankMethodFile ''t.go'' =
       Some \<lparr>StructName = ''T'', StructResult.FilePath = ''t.go'', LCOM4Score = 1,
             ComponentDetails = [[''_'']]\<rparr>"
    by code_simp
  show ?thesis
    using e2 e3 f4 g4 by (simp add: e1 f1 f2 f3 g1 g2 g3 list_all_iff)
qed

text \<open>
  Claim C2 (amended). For a struct with at least one method, the LCOM4 score is the number
  of connected components of the graph whose nodes are the names of its methods and fields
  (members of the same name are one node), in which a method is joined to each field it
  uses; when the struct has at least one field and every method uses every field, the
  score is 1.
\<close>

theorem lcom4_counts_connected_components:
  assumes "extractMethods structName file (extractFields structType) \<noteq> []"
  shows "\<exists>r. calculateStructLCOM4 structName structType file fileName = Some r
           \<and> LCOM4Score r = int (componentCount (usageNodes structName structType file)
                                     (usageEdges structName structType file))
           \<and> (extractFields structType \<noteq> []
                \<and> (\<forall>m \<in> set (extractMethods structName file (extractFields structType)).
                      set (extractFields structType) \<subseteq> set (usedFields m))
                \<longrightarrow> LCOM4Score r = 1)"
proof -
  obtain r where r: "calculateStructLCOM4 structName structType file fileName = Some r"
    and score: "LCOM4Score r = int (length (ComponentDetails r))"
    and count: "length (ComponentDetails r)
               = componentCount (usageNodes structName structType file)
                   (usageEdges structName structType file)"
    using calculateStructLCOM4_correct [OF assms] by blast
  have "LCOM4Score r = 1"
    if "extractFields structType \<noteq> []"
      and "\<forall>m \<in> set (extractMethods structName file (extractFields structType)).
                      set (extractFields structType) \<subseteq> set (usedFields m)"
    using all_fields_used_connected [OF assms that] score count by simp
  then show ?thesis
    using r score count by simp
qed

theorem lcom4_counts_connected_components_witness:
  "extractMethods ''Vec'' vecFile (extractFields vecStruct) \<noteq> []
   \<and> extractFields vecStruct \<noteq> []
   \<and> list_all (\<lambda>m. set (extractFields vecStruct) \<subseteq> set (usedFields m))
         (extractMethods ''Vec'' vecFile (extractFields vecStruct))
   \<and> calculateStructLCOM4 ''Vec'' vecStruct vecFile ''vec.go'' =
       Some \<lparr>StructName = ''Vec'', StructResult.FilePath = ''vec.go'', LCOM4Score = 1,
             ComponentDetails = [[''Move'', ''Norm'', ''x'', ''y'']]\<rparr>
   \<and> componentCount (usageNodes ''Vec'' vecStruct vecFile) (usageEdges ''Vec'' vecStruct vecFile)
       = 1"
proof -
  have fs: "extractFields vecStruct = [''x'', ''y'']"
    by (simp add: extractFields_def vecStruct_def)
  have ms: "extractMethods ''Vec'' vecFile [''x'', ''y''] =
      [\<lparr>methodInfo.name = ''Move'', usedFields = [''x'', ''y'']\<rparr>,
       \<lparr>methodInfo.name = ''Norm'', usedFields = [''y'', ''x'']\<rparr>]"
    by (simp add: extractMethods_def vecFile_def methodsOfDecl_def methodDecl_def
        findUsedFields_def blockNode_def recvVarName_def)
  have res: "calculateStructLCOM4 ''Vec'' vecStruct vecFile ''vec.go'' =
       Some \<lparr>StructName = ''Vec'', StructResult.FilePath = ''vec.go'', LCOM4Score = 1,
             ComponentDetails = [[''Move'', ''Norm'', ''x'', ''y'']]\<rparr>"
    by code_simp
  have ne: "extractMethods ''Vec'' vecFile (extractFields vecStruct) \<noteq> []"
    by (simp add: fs ms)
  show ?thesis
    using lcom4_counts_connected_components [OF ne, of "''vec.go''"] res
    by (simp add: fs ms)
qed

section \<open>The components partition the nodes\<close>

text \<open>
  Claim C10 as stated speaks of any sequence of operations. A call of \<open>union\<close> on two
  nodes that were never added makes \<open>find\<close> enter both in the parent map, and
  \<open>getComponents\<close> returns them as a component, although no node was added.
\<close>

theorem union_of_unknown_nodes:
  "addedNodes [Union ''a'' ''b''] = {}
   \<and> (applyOps newUnionFind [Union ''a'' ''b''] \<bind> getComponents) =
       Some (\<lparr>parent = [(''a'', []), (''b'', [])], rank = []\<rparr>, [[''a'', ''b'']])"
proof -
  have "(applyOps newUnionFind [Union ''a'' ''b''] \<bind> getComponents) =
       Some (\<lparr>parent = [(''a'', []), (''b'', [])], rank = []\<rparr>, [[''a'', ''b'']])"
    by code_simp
  then show ?thesis
    by simp
qed

text \<open>
  Claim C10 (amended). After any sequence of calls of \<open>add\<close> and \<open>union\<close> in which every
  \<open>union\<close> is on nodes added before it, \<open>getComponents\<close> returns lists that together hold
  every added node exactly once, and nothing else. Hence for a struct with at least one
  method the component details of the cohesion result partition the names of its methods
  and fields, and the LCOM4 score is the number of those lists.
\<close>

theorem components_partition_added_nodes:
  "(unionsOnAdded {} ops \<longrightarrow>
      (\<exists>uf uf' comps. applyOps newUnionFind ops = Some uf
         \<and> getComponents uf = Some (uf', comps)
         \<and> distinct (concat comps) \<and> set (concat comps) = addedNodes ops
         \<and> [] \<notin> set comps))
   \<and> (extractMethods structName file (extractFields structType) \<noteq> [] \<longrightarrow>
      (\<exists>r. calculateStructLCOM4 structName structType file fileName = Some r
         \<and> distinct (concat (ComponentDetails r))
         \<and> set (concat (ComponentDetails r)) = usageNodes structName structType file
         \<and> [] \<notin> set (ComponentDetails r)
         \<and> LCOM4Score r = int (length (ComponentDetails r))))"
proof (intro conjI impI)
  assume "unionsOnAdded {} ops"
  then obtain uf where ops: "applyOps newUnionFind ops = Some uf" and inv: "ufInv uf"
    and keys: "ufKeys uf = addedNodes ops"
    using applyOps_new by blast
  obtain uf' comps where "getComponents uf = Some (uf', comps)"
    and "distinct (concat comps)" "set (concat comps) = ufKeys uf" "[] \<notin> set comps"
    using getComponents_correct [OF inv] by blast
  then show "\<exists>uf uf' comps. applyOps newUnionFind ops = Some uf
         \<and> getComponents uf = Some (uf', comps)
         \<and> distinct (concat comps) \<and> set (concat comps) = addedNodes ops
         \<and> [] \<notin> set comps"
    using ops keys by auto
next
  assume "extractMethods structName file (extractFields structType) \<noteq> []"
  then show "\<exists>r. calculateStructLCOM4 structName structType file fileName = Some r
         \<and> distinct (concat (ComponentDetails r))
         \<and> set (concat (ComponentDetails r)) = usageNodes structName structType file
         \<and> [] \<notin> set (ComponentDetails r)
         \<and> LCOM4Score r = int (length (ComponentDetails r))"
    using calculateStructLCOM4_correct by blast
qed

theorem components_partition_added_nodes_witness:
  "unionsOnAdded {} exampleOps
   \<and> addedNodes exampleOps = {''a'', ''b'', ''c''}
   \<and> (applyOps newUnionFind exampleOps \<bind> getComponents) =
       Some (\<lparr>parent = [(''a'', ''a''), (''b'', ''a''), (''c'', ''c'')],
              rank = [(''a'', 1), (''b'', 0), (''c'', 0)]\<rparr>,
             [[''a'', ''b''], [''c'']])
   \<and> extractMethods ''Account'' accountFile (extractFields accountStruct) \<noteq> []
   \<and> calculateStructLCOM4 ''Account'' accountStruct accountFile ''account.go'' =
       Some \<lparr>StructName = ''Account'', StructResult.FilePath = ''account.go'',
             LCOM4Score = 2,
             ComponentDetails = [[''Deposit'', ''Owner'', ''balance'', ''owner''],
                                 [''Audit'', ''log'']]\<rparr>"
proof -
  have a: "unionsOnAdded {} exampleOps"
    by (simp add: exampleOps_def)
  have b: "addedNodes exampleOps = {''a'', ''b'', ''c''}"
    by (auto simp: exampleOps_def)
  have c: "(applyOps newUnionFind exampleOps \<bind> getComponents) =
       Some (\<lparr>parent = [(''a'', ''a''), (''b'', ''a''), (''c'', ''c'')],
              rank = [(''a'', 1), (''b'', 0), (''c'', 0)]\<rparr>,
             [[''a'', ''b''], [''c'']])"
    by code_simp
  have d: "extractMethods ''Account'' accountFile (extractFields accountStruct) \<noteq> []"
    by (simp add: extractMethods_def accountFile_def methodsOfDecl_def methodDecl_def)
  have e: "calculateStructLCOM4 ''Account'' accountStruct accountFile ''account.go'' =
       Some \<lparr>StructName = ''Account'', StructResult.FilePath = ''account.go'',
             LCOM4Score = 2,
             ComponentDetails = [[''Deposit'', ''Owner'', ''balance'', ''owner''],
                                 [''Audit'', ''log'']]\<rparr>"
    by code_simp
  show ?thesis
    using a b c d e
      components_partition_added_nodes [of exampleOps "''Account''" accountFile accountStruct
        "''account.go''"]
    by blast
qed


end
